theory Spec2Isabelle
  imports Main "HOL-Library.Word"
begin

unbundle bit_operations_syntax

section \<open>WideInteger: 32-bit and 128-bit unsigned arithmetic\<close>

text \<open>
  The embedding follows \<^verbatim>\<open>rlm_redis_ippool_tool.c\<close>. C's \<^verbatim>\<open>uint32_t\<close> and
  \<^verbatim>\<open>uint64_t\<close> are \<open>32 word\<close> and \<open>64 word\<close>; \<^verbatim>\<open>uint8_t\<close> arguments that only
  count bits are \<open>nat\<close>. A function whose C body can leave defined behaviour (a failed
  \<^verbatim>\<open>rad_assert\<close>, a shift by the operand's width or more) returns \<open>option\<close>, and
  \<open>None\<close> is that outcome.
\<close>

type_synonym uint32 = "32 word"
type_synonym uint64 = "64 word"

text \<open>
  \<^verbatim>\<open>uint32_gen_mask\<close>: \<^verbatim>\<open>if (bits >= 32) return 0xffffffff; return (1 << bits) - 1;\<close>
  The shift and the subtraction are done on \<^verbatim>\<open>int\<close>; the model takes the two's-complement
  result, which is what the conversion to \<^verbatim>\<open>uint32_t\<close> returns on the compilers the
  server builds with.
\<close>

definition uint32_gen_mask :: "nat \<Rightarrow> uint32" where
  "uint32_gen_mask bits = (if bits \<ge> 32 then 0xffffffff else push_bit bits 1 - 1)"

text \<open>
  Without \<^verbatim>\<open>HAVE_128BIT_INTEGERS\<close> a 128-bit integer is a struct of two 64-bit halves.
\<close>

record uint128 =
  h :: uint64
  l :: uint64

text \<open>C's \<^verbatim>\<open><<\<close> and \<^verbatim>\<open>>>\<close> on \<^verbatim>\<open>uint64_t\<close>: undefined for a count of 64 or more.\<close>

definition shl64 :: "uint64 \<Rightarrow> nat \<Rightarrow> uint64 option" where
  "shl64 x n = (if n < 64 then Some (push_bit n x) else None)"

definition shr64 :: "uint64 \<Rightarrow> nat \<Rightarrow> uint64 option" where
  "shr64 x n = (if n < 64 then Some (drop_bit n x) else None)"

text \<open>
  \<^verbatim>\<open>uint128_gen_mask\<close> (two halves):
  \<^verbatim>\<open>
  rad_assert(bits < 128);
  if (bits > 64) {
          ret.l = 0xffffffffffffffff;
          ret.h = (uint64_t)1 << (bits - 64);
          ret.h ^= (ret.h - 1);
          return ret;
  }
  ret.h = 0;
  ret.l = (uint64_t)1 << bits;
  ret.l ^= (ret.l - 1);
  \<close>
\<close>

definition uint128_gen_mask :: "nat \<Rightarrow> uint128 option" where
  "uint128_gen_mask bits =
     (if \<not> bits < 128 then None
      else if bits > 64 then
        (case shl64 1 (bits - 64) of
           None \<Rightarrow> None
         | Some rh \<Rightarrow> Some \<lparr>h = rh XOR (rh - 1), l = 0xffffffffffffffff\<rparr>)
      else
        (case shl64 1 bits of
           None \<Rightarrow> None
         | Some rl \<Rightarrow> Some \<lparr>h = 0, l = rl XOR (rl - 1)\<rparr>))"

text \<open>
  \<^verbatim>\<open>uint128_lshift\<close> (two halves):
  \<^verbatim>\<open>
  rad_assert(bits < 128);
  if (bits >= 64) {
          num.l = 0;
          num.h = num.l << (bits - 64);
          return num;
  }
  num.h = (num.h << bits) | (num.l >> (64 - bits));
  num.l <<= bits;
  \<close>
  In the first branch \<^verbatim>\<open>num.l\<close> is cleared before it is read.
\<close>

definition uint128_lshift :: "uint128 \<Rightarrow> nat \<Rightarrow> uint128 option" where
  "uint128_lshift num bits =
     (if \<not> bits < 128 then None
      else if bits \<ge> 64 then
        (let num1 = num\<lparr>l := 0\<rparr> in
         case shl64 (l num1) (bits - 64) of
           None \<Rightarrow> None
         | Some nh \<Rightarrow> Some (num1\<lparr>h := nh\<rparr>))
      else
        (case (shl64 (h num) bits, shr64 (l num) (64 - bits), shl64 (l num) bits) of
           (Some a, Some b, Some c) \<Rightarrow> Some \<lparr>h = a OR b, l = c\<rparr>
         | _ \<Rightarrow> None))"

text \<open>
  \<^verbatim>\<open>uint128_add\<close>:
  \<^verbatim>\<open>
  uint64_t tmp = (((a.l & b.l) & 1) + (a.l >> 1) + (b.l >> 1)) >> 63;
  ret.l = a.l + b.l;
  ret.h = a.h + b.h + tmp;
  \<close>
\<close>

definition uint128_add :: "uint128 \<Rightarrow> uint128 \<Rightarrow> uint128" where
  "uint128_add a b =
     (let tmp = drop_bit 63 (((l a AND l b) AND 1) + drop_bit 1 (l a) + drop_bit 1 (l b))
      in \<lparr>h = h a + h b + tmp, l = l a + l b\<rparr>)"

text \<open>
  \<^verbatim>\<open>uint128_sub\<close>:
  \<^verbatim>\<open>
  ret.l = a.l - b.l;
  c = (((ret.l & b.l) & 1) + (b.l >> 1) + (ret.l >> 1)) >> 63;
  ret.h = a.h - (b.h + c);
  \<close>
\<close>

definition uint128_sub :: "uint128 \<Rightarrow> uint128 \<Rightarrow> uint128" where
  "uint128_sub a b =
     (let rl = l a - l b;
          c = drop_bit 63 (((rl AND l b) AND 1) + drop_bit 1 (l b) + drop_bit 1 rl)
      in \<lparr>h = h a - (h b + c), l = rl\<rparr>)"

text \<open>\<^verbatim>\<open>uint128_band\<close>: \<^verbatim>\<open>ret.l = a.l & b.l; ret.h = a.h & b.h;\<close>\<close>

definition uint128_band :: "uint128 \<Rightarrow> uint128 \<Rightarrow> uint128" where
  "uint128_band a b = \<lparr>h = h a AND h b, l = l a AND l b\<rparr>"

text \<open>\<^verbatim>\<open>uint128_bor\<close>: \<^verbatim>\<open>ret.l = a.l | b.l; ret.h = a.h + b.h;\<close>\<close>

definition uint128_bor :: "uint128 \<Rightarrow> uint128 \<Rightarrow> uint128" where
  "uint128_bor a b = \<lparr>h = h a + h b, l = l a OR l b\<rparr>"

text \<open>\<^verbatim>\<open>uint128_eq\<close>: \<^verbatim>\<open>return (a.h == b.h) && (a.l == b.l);\<close>\<close>

definition uint128_eq :: "uint128 \<Rightarrow> uint128 \<Rightarrow> bool" where
  "uint128_eq a b \<longleftrightarrow> h a = h b \<and> l a = l b"

text \<open>
  \<^verbatim>\<open>uint128_gt\<close>:
  \<^verbatim>\<open>if (a.h < b.h) return false; if (a.h > b.h) return true; return (a.l > b.l);\<close>
\<close>

definition uint128_gt :: "uint128 \<Rightarrow> uint128 \<Rightarrow> bool" where
  "uint128_gt a b = (if h a < h b then False else if h a > h b then True else l a > l b)"

text \<open>\<^verbatim>\<open>uint128_new(h, l)\<close>\<close>

definition uint128_new :: "uint64 \<Rightarrow> uint64 \<Rightarrow> uint128" where
  "uint128_new hi lo = \<lparr>h = hi, l = lo\<rparr>"

text \<open>
  The number a pair of halves stands for, as a 128-bit word: the high half shifted by
  64, or-ed with the low half. With \<^verbatim>\<open>HAVE_128BIT_INTEGERS\<close> this is the file's own
  \<^verbatim>\<open>uint128_new\<close>: \<^verbatim>\<open>((uint128_t)_b | ((uint128_t)_a << 64))\<close>.
\<close>

definition u128_val :: "uint128 \<Rightarrow> 128 word" where
  "u128_val a = push_bit 64 (ucast (h a)) OR ucast (l a)"

definition u128_of :: "128 word \<Rightarrow> uint128" where
  "u128_of w = \<lparr>h = ucast (drop_bit 64 w), l = ucast w\<rparr>"

text \<open>
  With \<^verbatim>\<open>HAVE_128BIT_INTEGERS\<close> the same names are the C operators on a native
  \<^verbatim>\<open>uint128_t\<close>:
  \<^verbatim>\<open>
  static uint128_t uint128_gen_mask(uint8_t bits)
  {
          if (bits >= 128) return ~(uint128_t)0x00;
          return (((uint128_t)1) << bits) - 1;
  }
  #define uint128_lshift(_num, _bits) (_num << _bits)
  #define uint128_bor(_a, _b) (_a | _b)
  #define uint128_eq(_a, _b) (_a == _b)
  #define uint128_gt(_a, _b) (_a > _b)
  #define uint128_add(_a, _b) (_a + _b)
  #define uint128_sub(_a, _b) (_a - _b)
  \<close>
  A shift by 128 or more is undefined there as well.
\<close>

definition uint128_gen_mask_native :: "nat \<Rightarrow> 128 word" where
  "uint128_gen_mask_native bits = (if bits \<ge> 128 then NOT 0 else push_bit bits 1 - 1)"

definition uint128_lshift_native :: "128 word \<Rightarrow> nat \<Rightarrow> 128 word option" where
  "uint128_lshift_native num bits = (if bits < 128 then Some (push_bit bits num) else None)"

section \<open>AddressRange: stepping through an interval\<close>

datatype af = AF_UNSPEC | AF_INET | AF_INET6

text \<open>
  \<^verbatim>\<open>fr_ipaddr_t\<close>. The address bytes are kept in network byte order and the
  computations of the file first apply \<^verbatim>\<open>ntohl\<close> or \<^verbatim>\<open>ntohlll\<close> and convert back
  afterwards, so the record holds the number those bytes denote: \<open>ip4addr\<close> is
  \<^verbatim>\<open>ntohl(ipaddr.ip4addr.s_addr)\<close>, \<open>ip6addr\<close> the 128-bit value of
  \<^verbatim>\<open>ipaddr.ip6addr.s6_addr\<close>. Only the member of the address family is read. The one
  computation done on the converted bytes, the decrement of the IPv6 branch of
  \<^verbatim>\<open>parse_ip_range\<close>, is modelled with the conversion written out.
\<close>

record fr_ipaddr =
  af :: af
  ip4addr :: uint32
  ip6addr :: "128 word"
  prefix :: nat

text \<open>
  \<^verbatim>\<open>ipaddr_next\<close>. The C function writes the next address through its first argument and
  returns whether it moved; the model returns the address and that flag. The first
  argument of the model says whether the build has \<^verbatim>\<open>HAVE_128BIT_INTEGERS\<close>.
  \<^verbatim>\<open>
  switch (ipaddr->af) {
  default:
  case AF_UNSPEC:
          rad_assert(0);
          return false;
  case AF_INET6:
          rad_assert((prefix > 0) && (prefix <= 128));
          ...
          if (uint128_eq(ip_curr, ip_end)) return false;
          ip_curr = uint128_add(ip_curr, uint128_lshift(uint128_new(0, 1), (128 - prefix)));
          ...
          return true;
  case AF_INET:
          rad_assert((prefix > 0) && (prefix <= 32));
          ...
          if (ip_curr == ip_end) return false;
          ip_curr += 1 << (32 - prefix);
          ...
          return true;
  }
  \<close>
\<close>

definition ipaddr_next ::
  "bool \<Rightarrow> fr_ipaddr \<Rightarrow> fr_ipaddr \<Rightarrow> nat \<Rightarrow> (fr_ipaddr \<times> bool) option" where
  "ipaddr_next have_128bit ipaddr end_addr pfx =
     (case af ipaddr of
        AF_UNSPEC \<Rightarrow> None
      | AF_INET6 \<Rightarrow>
          if \<not> (pfx > 0 \<and> pfx \<le> 128) then None
          else if have_128bit then
            (let ip_curr = ip6addr ipaddr; ip_end = ip6addr end_addr in
             if ip_curr = ip_end then Some (ipaddr, False)
             else case uint128_lshift_native 1 (128 - pfx) of
                    None \<Rightarrow> None
                  | Some inc \<Rightarrow> Some (ipaddr\<lparr>ip6addr := ip_curr + inc\<rparr>, True))
          else
            (let ip_curr = u128_of (ip6addr ipaddr); ip_end = u128_of (ip6addr end_addr) in
             if uint128_eq ip_curr ip_end then Some (ipaddr, False)
             else case uint128_lshift (uint128_new 0 1) (128 - pfx) of
                    None \<Rightarrow> None
                  | Some inc \<Rightarrow>
                      Some (ipaddr\<lparr>ip6addr := u128_val (uint128_add ip_curr inc)\<rparr>, True))
      | AF_INET \<Rightarrow>
          if \<not> (pfx > 0 \<and> pfx \<le> 32) then None
          else
            (let ip_curr = ip4addr ipaddr; ip_end = ip4addr end_addr in
             if ip_curr = ip_end then Some (ipaddr, False)
             else Some (ipaddr\<lparr>ip4addr := ip_curr + push_bit (32 - pfx) 1\<rparr>, True)))"

text \<open>
  Calling \<^verbatim>\<open>ipaddr_next\<close> repeatedly, as the loops of \<^verbatim>\<open>driver_do_lease\<close> do
  (\<^verbatim>\<open>for (...; more; more = ipaddr_next(&ipaddr, &op->end, op->prefix))\<close>): the list of
  the addresses the cursor takes, the first one included. The result is \<open>None\<close> when
  a call fails or when the cursor never reaches the end address.
\<close>

partial_function (option) ipaddr_walk ::
  "bool \<Rightarrow> fr_ipaddr \<Rightarrow> fr_ipaddr \<Rightarrow> nat \<Rightarrow> fr_ipaddr list option" where
  "ipaddr_walk have_128bit ipaddr end_addr pfx =
     (case ipaddr_next have_128bit ipaddr end_addr pfx of
        None \<Rightarrow> None
      | Some (nxt, has_more) \<Rightarrow>
          if has_more
          then Option.bind (ipaddr_walk have_128bit nxt end_addr pfx) (\<lambda>rest. Some (ipaddr # rest))
          else Some [ipaddr])"

declare ipaddr_walk.simps [code]

text \<open>
  Modelled from the spec: the macro \<^verbatim>\<open>IPADDR_LEN\<close> of the server's headers, which is not
  among the sources. The spec gives the width of an address: 32 bits for IPv4 and 128
  for IPv6.
\<close>

definition IPADDR_LEN :: "af \<Rightarrow> nat" where
  "IPADDR_LEN f = (case f of AF_UNSPEC \<Rightarrow> 0 | AF_INET \<Rightarrow> 32 | AF_INET6 \<Rightarrow> 128)"

text \<open>The number an address stands for, in unsigned numeric order of its family.\<close>

definition addr_val :: "fr_ipaddr \<Rightarrow> nat" where
  "addr_val a = (case af a of AF_UNSPEC \<Rightarrow> 0 | AF_INET \<Rightarrow> unat (ip4addr a)
                 | AF_INET6 \<Rightarrow> unat (ip6addr a))"

section \<open>AddressRange: parsing a range, a CIDR network or a host\<close>

text \<open>
  \<^verbatim>\<open>parse_ip_range\<close> returns 0 and writes the two addresses, or logs an error and returns
  -1. The model returns the pair of addresses or the error; a failed \<^verbatim>\<open>rad_assert\<close> or
  an undefined shift in the 128-bit helpers is the error \<open>Undefined_behaviour\<close>.
\<close>

datatype parse_error =
    Start_address_too_long
  | End_address_too_long
  | Failed_parsing_start
  | Failed_parsing_end
  | Family_mismatch
  | End_before_start
  | Failed_parsing_subnet
  | Prefix_below_mask
  | Prefix_above_length
  | Prefix_span_over_64
  | Undefined_behaviour

text \<open>
  Modelled from the spec: the macro \<^verbatim>\<open>is_truncated\<close> of the server's headers, which is
  not among the sources. The spec has key and address buffers detect truncation:
  \<^verbatim>\<open>is_truncated(ret, max)\<close> holds when the length \<^verbatim>\<open>ret\<close> that a bounded copy or print
  asked for does not fit \<^verbatim>\<open>max\<close> bytes with the terminator, \<^verbatim>\<open>ret >= max\<close>.
  \<^verbatim>\<open>INET6_ADDRSTRLEN\<close> is the constant 46 of the system's headers.
\<close>

definition INET6_ADDRSTRLEN :: nat where
  "INET6_ADDRSTRLEN = 46"

definition is_truncated :: "nat \<Rightarrow> nat \<Rightarrow> bool" where
  "is_truncated ret mx \<longleftrightarrow> ret \<ge> mx"

text \<open>\<^verbatim>\<open>uint128_gt\<close> as the build has it, on the numbers of two addresses.\<close>

definition ip6_gt :: "bool \<Rightarrow> 128 word \<Rightarrow> 128 word \<Rightarrow> bool" where
  "ip6_gt have_128bit a b = (if have_128bit then a > b else uint128_gt (u128_of a) (u128_of b))"

text \<open>
  Modelled from the spec: the macros \<^verbatim>\<open>htonlll\<close> and \<^verbatim>\<open>ntohlll\<close> of the server's
  headers, which are not among the sources. The spec keeps an address in network byte
  order at rest and in host byte order during arithmetic. On a host with
  \<^verbatim>\<open>WORDS_BIGENDIAN\<close> the two orders are the same and the macros return their argument;
  on any other host they reverse its sixteen bytes (\<open>bswap128\<close>: bit \<open>n\<close> of the
  result is bit \<open>n mod 8\<close> of byte \<open>15 - n div 8\<close> of the argument).
\<close>

definition bswap128 :: "128 word \<Rightarrow> 128 word" where
  "bswap128 x =
     horner_sum of_bool 2 (map (\<lambda>n. bit x (8 * (15 - n div 8) + n mod 8)) [0..<128])"

definition htonlll :: "bool \<Rightarrow> 128 word \<Rightarrow> 128 word" where
  "htonlll words_bigendian x = (if words_bigendian then x else bswap128 x)"

definition ntohlll :: "bool \<Rightarrow> 128 word \<Rightarrow> 128 word" where
  "ntohlll words_bigendian x = (if words_bigendian then x else bswap128 x)"

text \<open>
  The end address of the IPv6 branch of the CIDR form:
  \<^verbatim>\<open>
  memcpy(&ip, start.ipaddr.ip6addr.s6_addr, sizeof(ip));
  ip = ntohlll(ip);
  p_mask = uint128_lshift(uint128_gen_mask(prefix - start.prefix), (128 - prefix));
  ip = htonlll(uint128_bor(p_mask, ip));
  if (ex_broadcast) ip = uint128_sub(ip, uint128_new(0, 1));
  memcpy(&end.ipaddr.ip6addr.s6_addr, &ip, sizeof(end.ipaddr.ip6addr.s6_addr));
  \<close>
  The argument \<open>ip\<close> is the number of the start address, which is what \<^verbatim>\<open>ntohlll\<close>
  makes of its bytes. The subtraction is done on the value \<^verbatim>\<open>htonlll\<close> returned, and
  the bytes of its result are the end address, whose number is \<open>ntohlll\<close> of it.
\<close>

definition ip6_cidr_end ::
  "bool \<Rightarrow> bool \<Rightarrow> 128 word \<Rightarrow> nat \<Rightarrow> nat \<Rightarrow> bool \<Rightarrow> 128 word option" where
  "ip6_cidr_end have_128bit words_bigendian ip start_prefix pfx ex_broadcast =
     (if have_128bit then
        (case uint128_lshift_native (uint128_gen_mask_native (pfx - start_prefix)) (128 - pfx) of
           None \<Rightarrow> None
         | Some p_mask \<Rightarrow>
             (let ip1 = htonlll words_bigendian (p_mask OR ip);
                  ip2 = (if ex_broadcast then ip1 - 1 else ip1)
              in Some (ntohlll words_bigendian ip2)))
      else
        (case uint128_gen_mask (pfx - start_prefix) of
           None \<Rightarrow> None
         | Some m \<Rightarrow>
             (case uint128_lshift m (128 - pfx) of
                None \<Rightarrow> None
              | Some p_mask \<Rightarrow>
                  (let ip1 = u128_of (htonlll words_bigendian
                                        (u128_val (uint128_bor p_mask (u128_of ip))));
                       ip2 = (if ex_broadcast then uint128_sub ip1 (uint128_new 0 1) else ip1)
                   in Some (ntohlll words_bigendian (u128_val ip2))))))"

text \<open>
  \<^verbatim>\<open>parse_ip_range(start_out, end_out, ip_str, prefix)\<close>. The first two arguments of
  the model say whether the build has \<^verbatim>\<open>HAVE_128BIT_INTEGERS\<close> and \<^verbatim>\<open>WORDS_BIGENDIAN\<close>.
  \<^verbatim>\<open>fr_inet_pton\<close> and
  \<^verbatim>\<open>fr_ipaddr_mask\<close> belong to the server library and are parameters of the model:
  \<open>fr_inet_pton text mask\<close> is the parsed address (its \<open>prefix\<close> the \<^verbatim>\<open>/N\<close> of the text,
  or the full width) or \<open>None\<close> when the call returns a negative value, \<open>mask\<close> being
  the call's last argument (clear the host bits or keep them).

  The text has the range form when \<^verbatim>\<open>strchr(ip_str, '-')\<close> finds a dash. The two
  buffers hold \<^verbatim>\<open>INET6_ADDRSTRLEN + 4\<close> bytes; \<^verbatim>\<open>strlcpy\<close> returns the length of its
  source, which for the start address is the whole of \<^verbatim>\<open>ip_str\<close>.
\<close>

definition parse_ip_range ::
  "bool \<Rightarrow> bool \<Rightarrow> (string \<Rightarrow> bool \<Rightarrow> fr_ipaddr option) \<Rightarrow>
   (fr_ipaddr \<Rightarrow> nat \<Rightarrow> fr_ipaddr) \<Rightarrow>
   string \<Rightarrow> nat \<Rightarrow> parse_error + (fr_ipaddr \<times> fr_ipaddr)" where
  "parse_ip_range have_128bit words_bigendian fr_inet_pton fr_ipaddr_mask ip_str pfx0 =
     (let n = length (takeWhile (\<lambda>c. c \<noteq> CHR ''-'') ip_str) in
      if n < length ip_str then
        (let start_buff = take n ip_str; end_buff = drop (n + 1) ip_str in
         if n \<ge> INET6_ADDRSTRLEN + 4 then Inl Start_address_too_long
         else if is_truncated (length ip_str) (INET6_ADDRSTRLEN + 4)
           then Inl Start_address_too_long
         else if is_truncated (length end_buff) (INET6_ADDRSTRLEN + 4)
           then Inl End_address_too_long
         else case fr_inet_pton start_buff True of
           None \<Rightarrow> Inl Failed_parsing_start
         | Some start \<Rightarrow>
         (case fr_inet_pton end_buff True of
           None \<Rightarrow> Inl Failed_parsing_end
         | Some end_addr \<Rightarrow>
           if af start \<noteq> af end_addr then Inl Family_mismatch
           else
             (let pfx = (if pfx0 = 0 then IPADDR_LEN (af start) else pfx0) in
              if (if af start = AF_INET6
                  then ip6_gt have_128bit (ip6addr start) (ip6addr end_addr)
                  else ip4addr start > ip4addr end_addr)
              then Inl End_before_start
              else Inr ((fr_ipaddr_mask start pfx)\<lparr>prefix := pfx\<rparr>,
                        (fr_ipaddr_mask end_addr pfx)\<lparr>prefix := pfx\<rparr>))))
      else
        (case fr_inet_pton ip_str False of
           None \<Rightarrow> Inl Failed_parsing_subnet
         | Some start \<Rightarrow>
           (let pfx = (if pfx0 = 0 then IPADDR_LEN (af start) else pfx0) in
            if pfx < prefix start then Inl Prefix_below_mask
            else if pfx > IPADDR_LEN (af start) then Inl Prefix_above_length
            else if pfx - prefix start > 64 then Inl Prefix_span_over_64
            else
              (let ex_broadcast = (IPADDR_LEN (af start) = pfx) in
               if ex_broadcast \<and> prefix start \<ge> IPADDR_LEN (af start) - 1
               then Inr (start, start)
               else if af start = AF_INET6 then
                 (if \<not> (pfx > 0 \<and> pfx \<le> 128) then Inl Undefined_behaviour
                  else case ip6_cidr_end have_128bit words_bigendian (ip6addr start)
                              (prefix start) pfx ex_broadcast of
                         None \<Rightarrow> Inl Undefined_behaviour
                       | Some ip \<Rightarrow> Inr (start, start\<lparr>ip6addr := ip\<rparr>))
               else
                 (if \<not> (pfx > 0 \<and> pfx \<le> 32) then Inl Undefined_behaviour
                  else
                    (let ip = ip4addr start OR
                              push_bit (32 - pfx) (uint32_gen_mask (pfx - prefix start));
                         ip1 = (if ex_broadcast then ip - 1 else ip)
                     in Inr (start, start\<lparr>ip4addr := ip1\<rparr>)))))))"

text \<open>
  Stand-ins for the two library functions in the worked examples: an \<^verbatim>\<open>fr_inet_pton\<close>
  that knows the texts \<^verbatim>\<open>10.0.0.0/24\<close>, \<^verbatim>\<open>2001:db8::/120\<close> and \<^verbatim>\<open>2001:db8::/64\<close>, and an
  \<^verbatim>\<open>fr_ipaddr_mask\<close> that clears the bits below the prefix.
\<close>

definition example_inet_pton :: "string \<Rightarrow> bool \<Rightarrow> fr_ipaddr option" where
  "example_inet_pton txt msk =
     (if txt = ''10.0.0.0/24''
      then Some \<lparr>af = AF_INET, ip4addr = 0x0A000000, ip6addr = 0, prefix = 24\<rparr>
      else if txt = ''2001:db8::/120''
      then Some \<lparr>af = AF_INET6, ip4addr = 0,
                  ip6addr = 0x20010db8000000000000000000000000, prefix = 120\<rparr>
      else if txt = ''2001:db8::/64''
      then Some \<lparr>af = AF_INET6, ip4addr = 0,
                  ip6addr = 0x20010db8000000000000000000000000, prefix = 64\<rparr>
      else None)"

definition example_ipaddr_mask :: "fr_ipaddr \<Rightarrow> nat \<Rightarrow> fr_ipaddr" where
  "example_ipaddr_mask a n =
     (case af a of
        AF_INET \<Rightarrow> a\<lparr>ip4addr := ip4addr a AND NOT (mask (32 - n)), prefix := n\<rparr>
      | AF_INET6 \<Rightarrow> a\<lparr>ip6addr := ip6addr a AND NOT (mask (128 - n)), prefix := n\<rparr>
      | AF_UNSPEC \<Rightarrow> a)"

section \<open>KeySchema and the store\<close>

text \<open>
  Modelled from the spec: the macros \<^verbatim>\<open>IPPOOL_POOL_KEY\<close>, \<^verbatim>\<open>IPPOOL_ADDRESS_KEY\<close> and
  \<^verbatim>\<open>IPPOOL_DEVICE_KEY\<close> of \<^verbatim>\<open>redis_ippool.h\<close>, which is not among the sources. The
  spec gives the key strings they produce: \<^verbatim>\<open>{<pool>}:pool\<close>, \<^verbatim>\<open>{<pool>}:ip:<address>\<close>
  and \<^verbatim>\<open>{<pool>}:device:<device>\<close>.
\<close>

definition IPPOOL_POOL_KEY :: string where
  "IPPOOL_POOL_KEY = ''pool''"

definition IPPOOL_ADDRESS_KEY :: string where
  "IPPOOL_ADDRESS_KEY = ''ip''"

definition IPPOOL_DEVICE_KEY :: string where
  "IPPOOL_DEVICE_KEY = ''device''"

text \<open>
  The three keys as the Lua scripts concatenate them, for example
  \<^verbatim>\<open>'{' .. KEYS[1] .. '}:"IPPOOL_ADDRESS_KEY":' .. ARGV[1]\<close>.
\<close>

definition pool_key :: "string \<Rightarrow> string" where
  "pool_key pool = ''{'' @ pool @ ''}:'' @ IPPOOL_POOL_KEY"

definition address_key :: "string \<Rightarrow> string \<Rightarrow> string" where
  "address_key pool addr = ''{'' @ pool @ ''}:'' @ IPPOOL_ADDRESS_KEY @ '':'' @ addr"

definition device_key :: "string \<Rightarrow> string \<Rightarrow> string" where
  "device_key pool dev = ''{'' @ pool @ ''}:'' @ IPPOOL_DEVICE_KEY @ '':'' @ dev"

text \<open>
  The keyspace of the shard that owns a pool's hash tag. A key names a sorted set
  (member to score), a hash (field to value) or a string; a key that holds nothing is
  the empty map. In the store a key holds one of the three; the record keeps them apart,
  so that no command meets a value of the wrong type, and \<^verbatim>\<open>DEL\<close> clears all three.
\<close>

record redis =
  zsets :: "string \<Rightarrow> string \<rightharpoonup> int"
  hashes :: "string \<Rightarrow> string \<rightharpoonup> string"
  strs :: "string \<rightharpoonup> string"

definition redis_empty :: redis where
  "redis_empty = \<lparr>zsets = (\<lambda>k. Map.empty), hashes = (\<lambda>k. Map.empty), strs = Map.empty\<rparr>"

text \<open>
  The store's commands that the tool and its scripts issue, each returning its reply and
  the keyspace after it.
  \<^item> \<^verbatim>\<open>ZADD key NX score member\<close> adds the member if it is absent and replies with the
    number of members added.
  \<^item> \<^verbatim>\<open>ZADD key XX CH score member\<close> updates the score of a member that exists and
    replies with the number of members changed: 0 when the member is absent or has
    that score already.
  \<^item> \<^verbatim>\<open>ZREM key member\<close> replies with the number of members removed.
  \<^item> \<^verbatim>\<open>HSET key field value\<close> replies 1 for a new field, 0 for an overwritten one.
  \<^item> \<^verbatim>\<open>ZSCORE\<close> and \<^verbatim>\<open>HGET\<close> reply with the value or nil.
  \<^item> \<^verbatim>\<open>DEL key\<close> removes the key; the scripts drop its reply.
  \<^item> \<^verbatim>\<open>SET key value\<close> is how the server module records a device's address; the tool
    itself never issues it.
\<close>

definition redis_ZADD_NX :: "string \<Rightarrow> int \<Rightarrow> string \<Rightarrow> redis \<Rightarrow> int \<times> redis" where
  "redis_ZADD_NX k score member s =
     (case zsets s k member of
        Some old \<Rightarrow> (0, s)
      | None \<Rightarrow> (1, s\<lparr>zsets := (zsets s)(k := (zsets s k)(member \<mapsto> score))\<rparr>))"

definition redis_ZADD_XX_CH :: "string \<Rightarrow> int \<Rightarrow> string \<Rightarrow> redis \<Rightarrow> int \<times> redis" where
  "redis_ZADD_XX_CH k score member s =
     (case zsets s k member of
        None \<Rightarrow> (0, s)
      | Some old \<Rightarrow>
          if old = score then (0, s)
          else (1, s\<lparr>zsets := (zsets s)(k := (zsets s k)(member \<mapsto> score))\<rparr>))"

definition redis_ZREM :: "string \<Rightarrow> string \<Rightarrow> redis \<Rightarrow> int \<times> redis" where
  "redis_ZREM k member s =
     (case zsets s k member of
        None \<Rightarrow> (0, s)
      | Some old \<Rightarrow> (1, s\<lparr>zsets := (zsets s)(k := (zsets s k)(member := None))\<rparr>))"

definition redis_ZSCORE :: "string \<Rightarrow> string \<Rightarrow> redis \<Rightarrow> int option" where
  "redis_ZSCORE k member s = zsets s k member"

definition redis_HGET :: "string \<Rightarrow> string \<Rightarrow> redis \<Rightarrow> string option" where
  "redis_HGET k field s = hashes s k field"

definition redis_HSET :: "string \<Rightarrow> string \<Rightarrow> string \<Rightarrow> redis \<Rightarrow> int \<times> redis" where
  "redis_HSET k field v s =
     ((case hashes s k field of None \<Rightarrow> 1 | Some old \<Rightarrow> 0),
      s\<lparr>hashes := (hashes s)(k := (hashes s k)(field \<mapsto> v))\<rparr>)"

definition redis_DEL :: "string \<Rightarrow> redis \<Rightarrow> redis" where
  "redis_DEL k s =
     s\<lparr>zsets := (zsets s)(k := Map.empty), hashes := (hashes s)(k := Map.empty),
       strs := (strs s)(k := None)\<rparr>"

definition redis_SET :: "string \<Rightarrow> string \<Rightarrow> redis \<Rightarrow> redis" where
  "redis_SET k v s = s\<lparr>strs := (strs s)(k \<mapsto> v)\<rparr>"

section \<open>LeaseScripts\<close>

text \<open>
  \<^verbatim>\<open>lua_release_cmd\<close>, with \<^verbatim>\<open>KEYS[1]\<close> the pool name and \<^verbatim>\<open>ARGV[1]\<close> the address:
  \<^verbatim>\<open>
  local found
  local ret
  ret = redis.call('ZADD', '{' .. KEYS[1] .. '}:pool', 'XX', 'CH', 0, ARGV[1])
  if ret == 0 then
    return 0
  end
  found = redis.call('HGET', '{' .. KEYS[1] .. '}:ip:' .. ARGV[1], 'device')
  if not found then
    return ret
  end
  redis.call('DEL', '{' .. KEYS[1] .. '}:device:' .. found)
  return 1
  \<close>
  A nil reply is \<^verbatim>\<open>false\<close> in Lua and every string, the empty one too, is true. The model
  returns the script's integer and the keyspace after it.
\<close>

definition lua_release_cmd :: "string \<Rightarrow> string \<Rightarrow> redis \<Rightarrow> int \<times> redis" where
  "lua_release_cmd KEYS1 ARGV1 s =
     (case redis_ZADD_XX_CH (pool_key KEYS1) 0 ARGV1 s of
        (ret, s1) \<Rightarrow>
          if ret = 0 then (0, s1)
          else
            (case redis_HGET (address_key KEYS1 ARGV1) ''device'' s1 of
               None \<Rightarrow> (ret, s1)
             | Some found \<Rightarrow> (1, redis_DEL (device_key KEYS1 found) s1)))"

text \<open>
  \<^verbatim>\<open>lua_remove_cmd\<close>:
  \<^verbatim>\<open>
  local found
  local ret
  local address_key
  ret = redis.call('ZREM', '{' .. KEYS[1] .. '}:pool', ARGV[1])
  address_key = '{' .. KEYS[1] .. '}:ip:' .. ARGV[1]
  found = redis.call('HGET', address_key, 'device')
  if not found then
    return ret
  end
  redis.call('DEL', address_key)
  redis.call('DEL', '{' .. KEYS[1] .. '}:device:' .. found)
  return 1
  \<close>
\<close>

definition lua_remove_cmd :: "string \<Rightarrow> string \<Rightarrow> redis \<Rightarrow> int \<times> redis" where
  "lua_remove_cmd KEYS1 ARGV1 s =
     (case redis_ZREM (pool_key KEYS1) ARGV1 s of
        (ret, s1) \<Rightarrow>
          (let addr_key = address_key KEYS1 ARGV1 in
           case redis_HGET addr_key ''device'' s1 of
             None \<Rightarrow> (ret, s1)
           | Some found \<Rightarrow>
               (1, redis_DEL (device_key KEYS1 found) (redis_DEL addr_key s1))))"

text \<open>
  The reverse-index key of the device that an address's metadata names, if it names one:
  the key the two scripts delete.
\<close>

definition lease_device_key :: "string \<Rightarrow> string \<Rightarrow> redis \<Rightarrow> string option" where
  "lease_device_key pool addr s =
     map_option (device_key pool) (hashes s (address_key pool addr) ''device'')"

text \<open>
  Keyspaces for the worked examples, all for the address \<^verbatim>\<open>10.0.0.1\<close> of pool \<^verbatim>\<open>p\<close>:
  as Add leaves it (score 0, range \<^verbatim>\<open>r1\<close>); leased to device \<^verbatim>\<open>d1\<close> (an expiry time
  as score, the device in the metadata and in the reverse index); with the score at 0
  but the device still recorded; and with the index entry gone but the metadata and
  the device entry left behind.
\<close>

definition example_added :: redis where
  "example_added =
     snd (redis_HSET (address_key ''p'' ''10.0.0.1'') ''range'' ''r1''
       (snd (redis_ZADD_NX (pool_key ''p'') 0 ''10.0.0.1'' redis_empty)))"

definition example_leased :: redis where
  "example_leased =
     redis_SET (device_key ''p'' ''d1'') ''10.0.0.1''
       (snd (redis_HSET (address_key ''p'' ''10.0.0.1'') ''device'' ''d1''
         (snd (redis_ZADD_XX_CH (pool_key ''p'') 1700000000 ''10.0.0.1'' example_added))))"

definition example_score_0_with_device :: redis where
  "example_score_0_with_device =
     redis_SET (device_key ''p'' ''d1'') ''10.0.0.1''
       (snd (redis_HSET (address_key ''p'' ''10.0.0.1'') ''device'' ''d1'' example_added))"

definition example_index_entry_gone :: redis where
  "example_index_entry_gone = snd (redis_ZREM (pool_key ''p'') ''10.0.0.1'' example_leased)"

section \<open>Commands, replies and pipelines\<close>

text \<open>
  A reply as the client library hands it over (\<^verbatim>\<open>redisReply\<close>, by its \<^verbatim>\<open>type\<close>), and the
  commands the tool appends to a connection with \<^verbatim>\<open>redisAppendCommand\<close>:
  \<^verbatim>\<open>MULTI\<close>, \<^verbatim>\<open>EXEC\<close>, \<^verbatim>\<open>ZADD key NX score member\<close>, \<^verbatim>\<open>HSET key field value\<close>,
  \<^verbatim>\<open>ZSCORE key member\<close>, \<^verbatim>\<open>HGET key field\<close> and \<^verbatim>\<open>EVAL script 1 pool address\<close> with one
  of the two scripts.
\<close>

datatype reply =
    REDIS_REPLY_STRING string
  | REDIS_REPLY_ARRAY "reply list"
  | REDIS_REPLY_INTEGER int
  | REDIS_REPLY_NIL
  | REDIS_REPLY_STATUS string
  | REDIS_REPLY_ERROR string

datatype script = Release_script | Remove_script

datatype command =
    MULTI
  | EXEC
  | ZADD_NX string int string
  | HSET string string string
  | ZSCORE string string
  | HGET string string
  | EVAL script string string

text \<open>A score as the store prints it in a reply: the decimal digits of an integer.\<close>

fun dec_digits :: "nat \<Rightarrow> string" where
  "dec_digits n =
     (if n < 10 then [''0123456789'' ! n]
      else dec_digits (n div 10) @ [''0123456789'' ! (n mod 10)])"

declare dec_digits.simps [simp del]

definition score_string :: "int \<Rightarrow> string" where
  "score_string i = (if i < 0 then CHR ''-'' # dec_digits (nat (- i)) else dec_digits (nat i))"

definition nil_or_string :: "string option \<Rightarrow> reply" where
  "nil_or_string v = (case v of None \<Rightarrow> REDIS_REPLY_NIL | Some x \<Rightarrow> REDIS_REPLY_STRING x)"

text \<open>One command outside a transaction: its reply and the keyspace after it.\<close>

definition redis_command :: "command \<Rightarrow> redis \<Rightarrow> reply \<times> redis" where
  "redis_command c s =
     (case c of
        MULTI \<Rightarrow> (REDIS_REPLY_ERROR ''ERR MULTI calls can not be nested'', s)
      | EXEC \<Rightarrow> (REDIS_REPLY_ERROR ''ERR EXEC without MULTI'', s)
      | ZADD_NX k score member \<Rightarrow>
          (case redis_ZADD_NX k score member s of (n, s1) \<Rightarrow> (REDIS_REPLY_INTEGER n, s1))
      | HSET k field v \<Rightarrow>
          (case redis_HSET k field v s of (n, s1) \<Rightarrow> (REDIS_REPLY_INTEGER n, s1))
      | ZSCORE k member \<Rightarrow>
          (nil_or_string (map_option score_string (redis_ZSCORE k member s)), s)
      | HGET k field \<Rightarrow> (nil_or_string (redis_HGET k field s), s)
      | EVAL Release_script pool addr \<Rightarrow>
          (case lua_release_cmd pool addr s of (n, s1) \<Rightarrow> (REDIS_REPLY_INTEGER n, s1))
      | EVAL Remove_script pool addr \<Rightarrow>
          (case lua_remove_cmd pool addr s of (n, s1) \<Rightarrow> (REDIS_REPLY_INTEGER n, s1)))"

text \<open>The commands a transaction queued, run in order at \<^verbatim>\<open>EXEC\<close>.\<close>

fun redis_run_queued :: "command list \<Rightarrow> redis \<Rightarrow> reply list \<times> redis" where
  "redis_run_queued [] s = ([], s)"
| "redis_run_queued (c # cs) s =
     (case redis_command c s of
        (r, s1) \<Rightarrow> (case redis_run_queued cs s1 of (rs, s2) \<Rightarrow> (r # rs, s2)))"

text \<open>
  A pipeline: the commands of a connection answered in order, one reply for each. After
  \<^verbatim>\<open>MULTI\<close> (reply \<^verbatim>\<open>OK\<close>) a command is queued (reply \<^verbatim>\<open>QUEUED\<close>) until \<^verbatim>\<open>EXEC\<close> runs the
  queue and replies with the array of its replies. The second argument is the queue of
  the open transaction, if one is open.
\<close>

fun redis_pipeline :: "command list \<Rightarrow> command list option \<Rightarrow> redis \<Rightarrow> reply list \<times> redis" where
  "redis_pipeline [] q s = ([], s)"
| "redis_pipeline (c # cs) None s =
     (if c = MULTI then
        (case redis_pipeline cs (Some []) s of
           (rs, s1) \<Rightarrow> (REDIS_REPLY_STATUS ''OK'' # rs, s1))
      else
        (case redis_command c s of
           (r, s1) \<Rightarrow> (case redis_pipeline cs None s1 of (rs, s2) \<Rightarrow> (r # rs, s2))))"
| "redis_pipeline (c # cs) (Some queued) s =
     (if c = EXEC then
        (case redis_run_queued queued s of
           (qrs, s1) \<Rightarrow>
             (case redis_pipeline cs None s1 of (rs, s2) \<Rightarrow> (REDIS_REPLY_ARRAY qrs # rs, s2)))
      else if c = MULTI then
        (case redis_pipeline cs (Some queued) s of
           (rs, s1) \<Rightarrow> (REDIS_REPLY_ERROR ''ERR MULTI calls can not be nested'' # rs, s1))
      else
        (case redis_pipeline cs (Some (queued @ [c])) s of
           (rs, s1) \<Rightarrow> (REDIS_REPLY_STATUS ''QUEUED'' # rs, s1)))"

section \<open>LeaseOperations: the enqueue and result callbacks\<close>

text \<open>
  What differs from one build of the tool to the next: whether the compiler has 128-bit
  integers, and two declarations of \<^verbatim>\<open>redis_ippool.h\<close>, which is not among the sources:
  the size of the buffer for a metadata key (\<^verbatim>\<open>IPPOOL_MAX_IP_KEY_SIZE\<close>) and the text of
  an address or prefix (\<^verbatim>\<open>IPPOOL_SPRINT_IP\<close>).
\<close>

record tool_build =
  HAVE_128BIT_INTEGERS :: bool
  IPPOOL_MAX_IP_KEY_SIZE :: nat
  IPPOOL_SPRINT_IP :: "fr_ipaddr \<Rightarrow> nat \<Rightarrow> string"

text \<open>
  \<^verbatim>\<open>IPPOOL_BUILD_IP_KEY_FROM_STR(_buff, _p, _key, _key_len, _ip_str)\<close>:
  \<^verbatim>\<open>
  *_p++ = '{';
  memcpy(_p, _key, _key_len);
  _p += _key_len;
  _slen = strlcpy((char *)_p, "}:"IPPOOL_ADDRESS_KEY":", sizeof(_buff) - (_p - _buff));
  if (is_truncated((size_t)_slen, sizeof(_buff) - (_p - _buff))) {
          ERROR("IP key too long");
          return 0;
  }
  _p += (size_t)_slen;
  _p += strlcpy((char *)_p, _ip_str, sizeof(_buff) - (_p - _buff));
  \<close>
  The macro makes the calling function return 0 when the separator does not fit
  (\<open>Key_too_long\<close>). Nothing checks the first two writes, nor the last copy, after which
  the key is taken to be as long as the whole address text: a pool name or an address
  that does not fit is \<open>Key_overrun\<close>, outside defined behaviour.
\<close>

datatype key_result = Key_built string | Key_too_long | Key_overrun

definition IPPOOL_BUILD_IP_KEY_FROM_STR :: "nat \<Rightarrow> string \<Rightarrow> string \<Rightarrow> key_result" where
  "IPPOOL_BUILD_IP_KEY_FROM_STR buff_size key ip_str =
     (let sep = ''}:'' @ IPPOOL_ADDRESS_KEY @ '':'' in
      if 1 + length key > buff_size then Key_overrun
      else if is_truncated (length sep) (buff_size - (1 + length key)) then Key_too_long
      else if length ip_str \<ge> buff_size - (1 + length key + length sep) then Key_overrun
      else Key_built (''{'' @ key @ sep @ ip_str))"

text \<open>
  The enqueue callbacks (\<^verbatim>\<open>redis_ippool_queue_t\<close>) append their commands to the connection
  and return how many they appended. The model returns that number with the commands,
  or \<open>None\<close> for a key overrun. \<^verbatim>\<open>IPPOOL_BUILD_KEY\<close> builds the index key of the pool.

  \<^verbatim>\<open>_driver_show_lease_enqueue\<close>:
  \<^verbatim>\<open>
  redisAppendCommand(conn->handle, "MULTI");
  redisAppendCommand(conn->handle, "ZSCORE %b %s", key, key_p - key, ip_buff);
  redisAppendCommand(conn->handle, "HGET %b device", ip_key, ip_key_p - ip_key);
  redisAppendCommand(conn->handle, "HGET %b gateway", ip_key, ip_key_p - ip_key);
  redisAppendCommand(conn->handle, "HGET %b range", ip_key, ip_key_p - ip_key);
  redisAppendCommand(conn->handle, "EXEC");
  return 6;
  \<close>
\<close>

definition driver_show_lease_enqueue ::
  "tool_build \<Rightarrow> string \<Rightarrow> string \<Rightarrow> fr_ipaddr \<Rightarrow> nat \<Rightarrow> (int \<times> command list) option" where
  "driver_show_lease_enqueue build key_prefix range_id ipaddr pfx =
     (let key = pool_key key_prefix;
          ip_buff = IPPOOL_SPRINT_IP build ipaddr pfx
      in case IPPOOL_BUILD_IP_KEY_FROM_STR (IPPOOL_MAX_IP_KEY_SIZE build) key_prefix ip_buff of
           Key_overrun \<Rightarrow> None
         | Key_too_long \<Rightarrow> Some (0, [])
         | Key_built ip_key \<Rightarrow>
             Some (6, [MULTI, ZSCORE key ip_buff, HGET ip_key ''device'',
                       HGET ip_key ''gateway'', HGET ip_key ''range'', EXEC]))"

text \<open>
  \<^verbatim>\<open>_driver_release_lease_enqueue\<close> and \<^verbatim>\<open>_driver_remove_lease_enqueue\<close>:
  \<^verbatim>\<open>redisAppendCommand(conn->handle, "EVAL %s 1 %b %s", lua_release_cmd, key_prefix,
  key_prefix_len, ip_buff); return 1;\<close> and the same with \<^verbatim>\<open>lua_remove_cmd\<close>.
\<close>

definition driver_release_lease_enqueue ::
  "tool_build \<Rightarrow> string \<Rightarrow> string \<Rightarrow> fr_ipaddr \<Rightarrow> nat \<Rightarrow> (int \<times> command list) option" where
  "driver_release_lease_enqueue build key_prefix range_id ipaddr pfx =
     Some (1, [EVAL Release_script key_prefix (IPPOOL_SPRINT_IP build ipaddr pfx)])"

definition driver_remove_lease_enqueue ::
  "tool_build \<Rightarrow> string \<Rightarrow> string \<Rightarrow> fr_ipaddr \<Rightarrow> nat \<Rightarrow> (int \<times> command list) option" where
  "driver_remove_lease_enqueue build key_prefix range_id ipaddr pfx =
     Some (1, [EVAL Remove_script key_prefix (IPPOOL_SPRINT_IP build ipaddr pfx)])"

text \<open>
  \<^verbatim>\<open>_driver_add_lease_enqueue\<close>:
  \<^verbatim>\<open>
  redisAppendCommand(conn->handle, "MULTI");
  redisAppendCommand(conn->handle, "ZADD %b NX %u %s", key, key_p - key, 0, ip_buff);
  redisAppendCommand(conn->handle, "HSET %b range %b", ip_key, ip_key_p - ip_key, range, range_len);
  redisAppendCommand(conn->handle, "EXEC");
  return 4;
  \<close>
\<close>

definition driver_add_lease_enqueue ::
  "tool_build \<Rightarrow> string \<Rightarrow> string \<Rightarrow> fr_ipaddr \<Rightarrow> nat \<Rightarrow> (int \<times> command list) option" where
  "driver_add_lease_enqueue build key_prefix range_id ipaddr pfx =
     (let key = pool_key key_prefix;
          ip_buff = IPPOOL_SPRINT_IP build ipaddr pfx
      in case IPPOOL_BUILD_IP_KEY_FROM_STR (IPPOOL_MAX_IP_KEY_SIZE build) key_prefix ip_buff of
           Key_overrun \<Rightarrow> None
         | Key_too_long \<Rightarrow> Some (0, [])
         | Key_built ip_key \<Rightarrow>
             Some (4, [MULTI, ZADD_NX key 0 ip_buff, HSET ip_key ''range'' range_id, EXEC]))"

text \<open>
  The result callbacks (\<^verbatim>\<open>redis_ippool_process_t\<close>) take the result so far, the address
  of the replay cursor and one reply; they return a negative value for a reply they do
  not take. The model returns that value with the result after the call. The three
  counting callbacks add to a \<^verbatim>\<open>uint64_t\<close>.

  \<^verbatim>\<open>_driver_release_lease_process\<close> and \<^verbatim>\<open>_driver_remove_lease_process\<close>:
  \<^verbatim>\<open>if (reply->type != REDIS_REPLY_INTEGER) return -1; *modified += reply->integer;
  return 0;\<close>
\<close>

definition driver_release_lease_process :: "uint64 \<Rightarrow> fr_ipaddr \<Rightarrow> reply \<Rightarrow> int \<times> uint64" where
  "driver_release_lease_process modified ipaddr rep =
     (case rep of
        REDIS_REPLY_INTEGER i \<Rightarrow> (0, modified + of_int i)
      | _ \<Rightarrow> (-1, modified))"

definition driver_remove_lease_process :: "uint64 \<Rightarrow> fr_ipaddr \<Rightarrow> reply \<Rightarrow> int \<times> uint64" where
  "driver_remove_lease_process modified ipaddr rep =
     (case rep of
        REDIS_REPLY_INTEGER i \<Rightarrow> (0, modified + of_int i)
      | _ \<Rightarrow> (-1, modified))"

text \<open>
  \<^verbatim>\<open>_driver_add_lease_process\<close>:
  \<^verbatim>\<open>
  if (reply->type != REDIS_REPLY_ARRAY) return -1;
  if ((reply->elements > 0) && (reply->element[0]->type == REDIS_REPLY_INTEGER)) {
          *modified += reply->element[0]->integer;
  }
  return 0;
  \<close>
\<close>

definition driver_add_lease_process :: "uint64 \<Rightarrow> fr_ipaddr \<Rightarrow> reply \<Rightarrow> int \<times> uint64" where
  "driver_add_lease_process modified ipaddr rep =
     (case rep of
        REDIS_REPLY_ARRAY (REDIS_REPLY_INTEGER i # rest) \<Rightarrow> (0, modified + of_int i)
      | REDIS_REPLY_ARRAY other \<Rightarrow> (0, modified)
      | _ \<Rightarrow> (-1, modified))"

text \<open>
  \<^verbatim>\<open>strtoull(str, NULL, 10)\<close> of the C library: white space, an optional sign, then
  decimal digits up to the first other character; \<^verbatim>\<open>ULLONG_MAX\<close> when the digits
  exceed it, and the unsigned negation after a minus sign.
\<close>

definition digit_of :: "char \<Rightarrow> nat option" where
  "digit_of c =
     map_of [(CHR ''0'', 0), (CHR ''1'', 1), (CHR ''2'', 2), (CHR ''3'', 3), (CHR ''4'', 4),
             (CHR ''5'', 5), (CHR ''6'', 6), (CHR ''7'', 7), (CHR ''8'', 8), (CHR ''9'', 9)] c"

definition isspace :: "char \<Rightarrow> bool" where
  "isspace c \<longleftrightarrow> c \<in> set [CHR '' '', CHR 0x09, CHR 0x0A, CHR 0x0B, CHR 0x0C, CHR 0x0D]"

definition strtoull :: "string \<Rightarrow> nat" where
  "strtoull str =
     (let s1 = dropWhile isspace str;
          neg = (s1 \<noteq> [] \<and> hd s1 = CHR ''-'');
          s2 = (if s1 \<noteq> [] \<and> (hd s1 = CHR ''-'' \<or> hd s1 = CHR ''+'') then tl s1 else s1);
          ds = takeWhile (\<lambda>c. digit_of c \<noteq> None) s2;
          v = foldl (\<lambda>acc c. acc * 10 + the (digit_of c)) 0 ds
      in if v > 2 ^ 64 - 1 then 2 ^ 64 - 1
         else if neg then (2 ^ 64 - v) mod 2 ^ 64
         else v)"

text \<open>
  \<^verbatim>\<open>ippool_tool_lease_t\<close>; an absent range, device or gateway is a null pointer in C.
  \<^verbatim>\<open>next_event\<close> is the \<^verbatim>\<open>time_t\<close> that \<^verbatim>\<open>strtoull\<close>'s 64 bits are cast to.
\<close>

record ippool_tool_lease =
  lease_ipaddr :: fr_ipaddr
  lease_next_event :: uint64
  lease_range :: "string option"
  lease_device :: "string option"
  lease_gateway :: "string option"

definition string_of_reply :: "reply \<Rightarrow> string option" where
  "string_of_reply rep = (case rep of REDIS_REPLY_STRING str \<Rightarrow> Some str | _ \<Rightarrow> None)"

text \<open>
  \<^verbatim>\<open>_driver_show_lease_process\<close>:
  \<^verbatim>\<open>
  if (reply->type != REDIS_REPLY_ARRAY) return -1;
  if (reply->elements < 4) return -1;
  if (reply->element[0]->type != REDIS_REPLY_STRING) return -1;
  lease = talloc_zero(*modified, ippool_tool_lease_t);
  lease->ipaddr = *ipaddr;
  lease->next_event = (time_t)strtoull(reply->element[0]->str, NULL, 10);
  if (reply->element[1]->type == REDIS_REPLY_STRING) { lease->device = ...; }
  if (reply->element[2]->type == REDIS_REPLY_STRING) { lease->gateway = ...; }
  if (reply->element[3]->type == REDIS_REPLY_STRING) { lease->range = ...; }
  existing = talloc_array_length(*modified);
  *modified = talloc_realloc(NULL, *modified, ippool_tool_lease_t *, existing + 1);
  (*modified)[existing - 1] = lease;
  return 0;
  \<close>
  The array \<^verbatim>\<open>*modified\<close> has one slot more than it has leases; the model keeps the list
  of the leases.
\<close>

definition driver_show_lease_process ::
  "ippool_tool_lease list \<Rightarrow> fr_ipaddr \<Rightarrow> reply \<Rightarrow> int \<times> ippool_tool_lease list" where
  "driver_show_lease_process modified ipaddr rep =
     (case rep of
        REDIS_REPLY_ARRAY (REDIS_REPLY_STRING str # e1 # e2 # e3 # rest) \<Rightarrow>
          (0, modified @
              [\<lparr>lease_ipaddr = ipaddr,
                lease_next_event = of_nat (strtoull str),
                lease_range = string_of_reply e3,
                lease_device = string_of_reply e1,
                lease_gateway = string_of_reply e2\<rparr>])
      | _ \<Rightarrow> (-1, modified))"

section \<open>BatchExecutor: \<^verbatim>\<open>driver_do_lease\<close>\<close>

definition MAX_PIPELINED :: nat where
  "MAX_PIPELINED = 1000"

text \<open>\<^verbatim>\<open>ippool_tool_operation_t\<close>, the members the driver reads.\<close>

record ippool_tool_operation =
  op_pool :: string
  op_range :: string
  op_start :: fr_ipaddr
  op_end :: fr_ipaddr
  op_prefix :: nat

text \<open>
  Modelled from the spec: the store execution context, which is the cluster client of
  \<^verbatim>\<open>cluster.c\<close> and \<^verbatim>\<open>redis.c\<close> (\<^verbatim>\<open>fr_redis_cluster_state_init\<close>,
  \<^verbatim>\<open>fr_redis_cluster_state_next\<close>, \<^verbatim>\<open>fr_redis_pipeline_result\<close>), not among the sources.
  The spec describes it as: execute a batch of commands against the shard that owns a
  key, yielding one reply for each command in order, and report a redirect when the
  key's shard has changed, as an outcome apart from other errors.

  The model is the keyspace of the pool's hash tag together with what is to happen to
  the submissions to come, in order: a submission is executed, or it is answered with
  a redirect by a shard that no longer owns the key and executes none of it, or it
  fails. When the list is used up, submissions are executed.
\<close>

datatype submission = Executed | Redirected | Failed

record cluster =
  store :: redis
  upcoming :: "submission list"

datatype fr_redis_rcode =
    REDIS_RCODE_TRY_AGAIN
  | REDIS_RCODE_MOVE
  | REDIS_RCODE_SUCCESS
  | REDIS_RCODE_ERROR

text \<open>
  \<^verbatim>\<open>fr_redis_cluster_state_init\<close> reserves a connection to the shard of the key and
  returns \<^verbatim>\<open>REDIS_RCODE_TRY_AGAIN\<close>: run the loop body. \<^verbatim>\<open>fr_redis_cluster_state_next\<close>
  takes the status of the body: after a success it returns \<^verbatim>\<open>REDIS_RCODE_SUCCESS\<close>,
  after a redirect it follows the redirect and returns \<^verbatim>\<open>REDIS_RCODE_TRY_AGAIN\<close>, and
  otherwise it returns the error.
\<close>

definition fr_redis_cluster_state_init :: fr_redis_rcode where
  "fr_redis_cluster_state_init = REDIS_RCODE_TRY_AGAIN"

definition fr_redis_cluster_state_next :: "fr_redis_rcode \<Rightarrow> fr_redis_rcode" where
  "fr_redis_cluster_state_next status =
     (case status of
        REDIS_RCODE_SUCCESS \<Rightarrow> REDIS_RCODE_SUCCESS
      | REDIS_RCODE_MOVE \<Rightarrow> REDIS_RCODE_TRY_AGAIN
      | _ \<Rightarrow> REDIS_RCODE_ERROR)"

definition is_error_reply :: "reply \<Rightarrow> bool" where
  "is_error_reply rep = (case rep of REDIS_REPLY_ERROR msg \<Rightarrow> True | _ \<Rightarrow> False)"

text \<open>
  \<^verbatim>\<open>fr_redis_pipeline_result(&status, replies, ..., conn, pipelined)\<close> collects
  \<^verbatim>\<open>pipelined\<close> replies, stopping at the first that is not a success, and returns the
  replies it collected with the status. With nothing pipelined it reads nothing and
  reports success.
\<close>

definition fr_redis_pipeline_result ::
  "cluster \<Rightarrow> command list \<Rightarrow> int \<Rightarrow> reply list \<times> fr_redis_rcode \<times> cluster" where
  "fr_redis_pipeline_result cl cmds pipelined =
     (if pipelined \<le> 0 then ([], REDIS_RCODE_SUCCESS, cl)
      else case upcoming cl of
        Redirected # rest \<Rightarrow>
          ([REDIS_REPLY_ERROR ''MOVED''], REDIS_RCODE_MOVE, cl\<lparr>upcoming := rest\<rparr>)
      | Failed # rest \<Rightarrow> ([], REDIS_RCODE_ERROR, cl\<lparr>upcoming := rest\<rparr>)
      | other \<Rightarrow>
          (case redis_pipeline cmds None (store cl) of
             (all_replies, s1) \<Rightarrow>
               (let replies = take (nat pipelined) all_replies;
                    ok = takeWhile (\<lambda>r. \<not> is_error_reply r) replies;
                    cl1 = cl\<lparr>store := s1, upcoming := tl other\<rparr>
                in if length ok < length replies
                   then (take (Suc (length ok)) replies, REDIS_RCODE_ERROR, cl1)
                   else (replies, REDIS_RCODE_SUCCESS, cl1))))"

text \<open>
  The inner loop of \<^verbatim>\<open>driver_do_lease\<close>:
  \<^verbatim>\<open>
  for (i = 0; (i < MAX_PIPELINED) && more; i++, more = ipaddr_next(&ipaddr, &op->end,
                                                                   op->prefix)) {
          enqueued = enqueue(inst, conn, op->pool, op->pool_len,
                             op->range, op->range_len, &ipaddr, op->prefix);
          if (enqueued < 0) break;
          pipelined += enqueued;
  }
  \<close>
  The first argument counts the rounds that are left, \<^verbatim>\<open>MAX_PIPELINED - i\<close>. The result
  is the cursor, \<^verbatim>\<open>more\<close>, \<^verbatim>\<open>pipelined\<close> and the commands appended to the connection.
\<close>

fun enqueue_batch ::
  "nat \<Rightarrow> (fr_ipaddr \<Rightarrow> (int \<times> command list) option) \<Rightarrow>
   (fr_ipaddr \<Rightarrow> (fr_ipaddr \<times> bool) option) \<Rightarrow>
   fr_ipaddr \<Rightarrow> bool \<Rightarrow> int \<Rightarrow> command list \<Rightarrow>
   (fr_ipaddr \<times> bool \<times> int \<times> command list) option" where
  "enqueue_batch 0 enqueue nxt ipaddr has_more pipelined cmds =
     Some (ipaddr, has_more, pipelined, cmds)"
| "enqueue_batch (Suc n) enqueue nxt ipaddr has_more pipelined cmds =
     (if \<not> has_more then Some (ipaddr, has_more, pipelined, cmds)
      else case enqueue ipaddr of
        None \<Rightarrow> None
      | Some (enqueued, appended) \<Rightarrow>
          if enqueued < 0 then Some (ipaddr, has_more, pipelined, cmds @ appended)
          else case nxt ipaddr of
            None \<Rightarrow> None
          | Some (ipaddr1, more1) \<Rightarrow>
              enqueue_batch n enqueue nxt ipaddr1 more1 (pipelined + enqueued)
                (cmds @ appended))"

text \<open>
  The loop over the replies:
  \<^verbatim>\<open>
  fr_ipaddr_t to_process = acked;
  for (i = 0; (size_t)i < reply_cnt; i++) {
          ret = process(out, &to_process, replies[i]);
          if (ret < 0) continue;
          ipaddr_next(&to_process, &op->end, op->prefix);
  }
  \<close>
\<close>

fun process_replies ::
  "('o \<Rightarrow> fr_ipaddr \<Rightarrow> reply \<Rightarrow> int \<times> 'o) \<Rightarrow> (fr_ipaddr \<Rightarrow> (fr_ipaddr \<times> bool) option) \<Rightarrow>
   reply list \<Rightarrow> 'o \<Rightarrow> fr_ipaddr \<Rightarrow> ('o \<times> fr_ipaddr) option" where
  "process_replies process nxt [] out to_process = Some (out, to_process)"
| "process_replies process nxt (rep # replies) out to_process =
     (case process out to_process rep of
        (ret, out1) \<Rightarrow>
          if ret < 0 then process_replies process nxt replies out1 to_process
          else case nxt to_process of
            None \<Rightarrow> None
          | Some (moved, has_more) \<Rightarrow> process_replies process nxt replies out1 moved)"

lemma redirect_consumes:
  assumes "fr_redis_pipeline_result cl cmds pipelined = (replies, status, cl1)"
    and "fr_redis_cluster_state_next status = REDIS_RCODE_TRY_AGAIN"
  shows "length (upcoming cl1) < length (upcoming cl)"
proof -
  from assms(2) have "status = REDIS_RCODE_MOVE"
    by (cases status) (simp_all add: fr_redis_cluster_state_next_def)
  with assms(1) show ?thesis
    by (auto simp: fr_redis_pipeline_result_def Let_def
        split: if_splits list.splits submission.splits prod.splits)
qed

text \<open>
  The cluster loop of one batch, from \<^verbatim>\<open>acked\<close>:
  \<^verbatim>\<open>
  for (s_ret = fr_redis_cluster_state_init(...);
       s_ret == REDIS_RCODE_TRY_AGAIN;
       s_ret = fr_redis_cluster_state_next(..., status, &replies[0])) {
          int pipelined = 0;
          status = REDIS_RCODE_SUCCESS;
          if (s_ret == REDIS_RCODE_TRY_AGAIN) ipaddr = acked;
          for (...) { ... }                       /* the inner loop */
          ...
          reply_cnt = fr_redis_pipeline_result(&status, replies, ..., conn, pipelined);
  }
  \<close>
  \<^verbatim>\<open>fr_redis_cluster_state_init\<close> returns \<^verbatim>\<open>REDIS_RCODE_TRY_AGAIN\<close>, so the body runs at
  least once, and every round sets the cursor back to \<^verbatim>\<open>acked\<close>. Each round consumes
  the connection's commands, so the next round starts with none. \<^verbatim>\<open>more\<close> is a variable
  of the whole function: a round starts with the value the round before left. The
  result is \<^verbatim>\<open>s_ret\<close>, the cursor, \<^verbatim>\<open>more\<close> and the replies of the last round. The loop
  ends because every redirect uses up one of the submissions to come.
\<close>

function driver_batch ::
  "(fr_ipaddr \<Rightarrow> (int \<times> command list) option) \<Rightarrow> (fr_ipaddr \<Rightarrow> (fr_ipaddr \<times> bool) option) \<Rightarrow>
   fr_ipaddr \<Rightarrow> bool \<Rightarrow> cluster \<Rightarrow>
   (fr_redis_rcode \<times> fr_ipaddr \<times> bool \<times> reply list \<times> cluster) option" where
  "driver_batch enqueue nxt acked has_more cl =
     (case enqueue_batch MAX_PIPELINED enqueue nxt acked has_more 0 [] of
        None \<Rightarrow> None
      | Some (ipaddr, more1, pipelined, cmds) \<Rightarrow>
          (case fr_redis_pipeline_result cl cmds pipelined of
             (replies, status, cl1) \<Rightarrow>
               (let s_ret = fr_redis_cluster_state_next status in
                if s_ret = REDIS_RCODE_TRY_AGAIN
                then driver_batch enqueue nxt acked more1 cl1
                else Some (s_ret, ipaddr, more1, replies, cl1))))"
  by pat_completeness auto
termination
  apply (relation "measure (\<lambda>(enqueue, nxt, acked, has_more, cl). length (upcoming cl))")
   apply simp
  apply (auto intro: redirect_consumes [OF sym sym])
  done

declare driver_batch.simps [simp del]

text \<open>
  The outer loop, \<^verbatim>\<open>while (more) { acked = ipaddr; ...; if (s_ret != REDIS_RCODE_SUCCESS)
  return -1; if (process) { ... } }\<close> and \<^verbatim>\<open>return 0\<close>: the return value, the result and
  the cluster at the end. It is \<open>None\<close> when a call inside is undefined or the loop
  never ends.
\<close>

partial_function (option) driver_loop ::
  "(fr_ipaddr \<Rightarrow> (int \<times> command list) option) \<Rightarrow>
   ('o \<Rightarrow> fr_ipaddr \<Rightarrow> reply \<Rightarrow> int \<times> 'o) option \<Rightarrow>
   (fr_ipaddr \<Rightarrow> (fr_ipaddr \<times> bool) option) \<Rightarrow>
   fr_ipaddr \<Rightarrow> bool \<Rightarrow> 'o \<Rightarrow> cluster \<Rightarrow> (int \<times> 'o \<times> cluster) option" where
  "driver_loop enqueue process nxt ipaddr has_more out cl =
     (if \<not> has_more then Some (0, out, cl)
      else case driver_batch enqueue nxt ipaddr has_more cl of
        None \<Rightarrow> None
      | Some (s_ret, ipaddr1, more1, replies, cl1) \<Rightarrow>
          if s_ret \<noteq> REDIS_RCODE_SUCCESS then Some (-1, out, cl1)
          else
            (case process of
               None \<Rightarrow> driver_loop enqueue process nxt ipaddr1 more1 out cl1
             | Some callback \<Rightarrow>
                 (case process_replies callback nxt replies out ipaddr of
                    None \<Rightarrow> None
                  | Some (out1, to_process) \<Rightarrow>
                      driver_loop enqueue process nxt ipaddr1 more1 out1 cl1)))"

declare driver_loop.simps [code]

text \<open>
  \<^verbatim>\<open>driver_do_lease(out, instance, op, enqueue, process)\<close>: \<^verbatim>\<open>ipaddr = op->start\<close>,
  \<^verbatim>\<open>more = true\<close>, then the outer loop.
\<close>

definition driver_do_lease ::
  "tool_build \<Rightarrow> 'o \<Rightarrow> cluster \<Rightarrow> ippool_tool_operation \<Rightarrow>
   (tool_build \<Rightarrow> string \<Rightarrow> string \<Rightarrow> fr_ipaddr \<Rightarrow> nat \<Rightarrow> (int \<times> command list) option) \<Rightarrow>
   ('o \<Rightarrow> fr_ipaddr \<Rightarrow> reply \<Rightarrow> int \<times> 'o) option \<Rightarrow> (int \<times> 'o \<times> cluster) option" where
  "driver_do_lease build out cl opr enqueue process =
     driver_loop
       (\<lambda>ipaddr. enqueue build (op_pool opr) (op_range opr) ipaddr (op_prefix opr))
       process
       (\<lambda>ipaddr. ipaddr_next (HAVE_128BIT_INTEGERS build) ipaddr (op_end opr) (op_prefix opr))
       (op_start opr) True out cl"

text \<open>The four operations, as \<^verbatim>\<open>main\<close> calls them with a count of 0 or no leases.\<close>

definition driver_add_lease :: "tool_build \<Rightarrow> uint64 \<Rightarrow> cluster \<Rightarrow> ippool_tool_operation \<Rightarrow>
    (int \<times> uint64 \<times> cluster) option" where
  "driver_add_lease build out cl opr =
     driver_do_lease build out cl opr driver_add_lease_enqueue (Some driver_add_lease_process)"

definition driver_remove_lease :: "tool_build \<Rightarrow> uint64 \<Rightarrow> cluster \<Rightarrow> ippool_tool_operation \<Rightarrow>
    (int \<times> uint64 \<times> cluster) option" where
  "driver_remove_lease build out cl opr =
     driver_do_lease build out cl opr driver_remove_lease_enqueue
       (Some driver_remove_lease_process)"

definition driver_release_lease :: "tool_build \<Rightarrow> uint64 \<Rightarrow> cluster \<Rightarrow> ippool_tool_operation \<Rightarrow>
    (int \<times> uint64 \<times> cluster) option" where
  "driver_release_lease build out cl opr =
     driver_do_lease build out cl opr driver_release_lease_enqueue
       (Some driver_release_lease_process)"

definition driver_show_lease ::
  "tool_build \<Rightarrow> ippool_tool_lease list \<Rightarrow> cluster \<Rightarrow> ippool_tool_operation \<Rightarrow>
    (int \<times> ippool_tool_lease list \<times> cluster) option" where
  "driver_show_lease build out cl opr =
     driver_do_lease build out cl opr driver_show_lease_enqueue (Some driver_show_lease_process)"

text \<open>
  For the worked examples: an \<^verbatim>\<open>IPPOOL_SPRINT_IP\<close> that prints an IPv4 address as a
  dotted quad, with \<^verbatim>\<open>/<prefix>\<close> after it when the prefix is not 32 (other families are
  not printed), a build with it, and the operation on the one address \<^verbatim>\<open>10.0.0.1\<close> of
  pool \<^verbatim>\<open>p\<close> with range \<^verbatim>\<open>r1\<close>.
\<close>

definition example_sprint_ip :: "fr_ipaddr \<Rightarrow> nat \<Rightarrow> string" where
  "example_sprint_ip a pfx =
     (if af a = AF_INET then
        dec_digits (unat (drop_bit 24 (ip4addr a))) @ ''.'' @
        dec_digits (unat (drop_bit 16 (ip4addr a) AND 255)) @ ''.'' @
        dec_digits (unat (drop_bit 8 (ip4addr a) AND 255)) @ ''.'' @
        dec_digits (unat (ip4addr a AND 255)) @
        (if pfx = 32 then [] else ''/'' @ dec_digits pfx)
      else ''?'')"

definition example_build :: tool_build where
  "example_build =
     \<lparr>HAVE_128BIT_INTEGERS = False, IPPOOL_MAX_IP_KEY_SIZE = 256,
      IPPOOL_SPRINT_IP = example_sprint_ip\<rparr>"

definition example_host :: "uint32 \<Rightarrow> fr_ipaddr" where
  "example_host w = \<lparr>af = AF_INET, ip4addr = w, ip6addr = 0, prefix = 32\<rparr>"

definition example_op :: "uint32 \<Rightarrow> uint32 \<Rightarrow> ippool_tool_operation" where
  "example_op first last_one =
     \<lparr>op_pool = ''p'', op_range = ''r1'', op_start = example_host first,
      op_end = example_host last_one, op_prefix = 32\<rparr>"

section \<open>Notions for stating the properties of the driver\<close>

text \<open>
  A result callback that also keeps the arguments of each of its invocations, in order:
  the calls so far are paired with the result.
\<close>

definition recording ::
  "('o \<Rightarrow> fr_ipaddr \<Rightarrow> reply \<Rightarrow> int \<times> 'o) \<Rightarrow>
   (fr_ipaddr \<times> reply) list \<times> 'o \<Rightarrow> fr_ipaddr \<Rightarrow> reply \<Rightarrow> int \<times> (fr_ipaddr \<times> reply) list \<times> 'o" where
  "recording process acc ipaddr rep =
     (case process (snd acc) ipaddr rep of
        (ret, out1) \<Rightarrow> (ret, fst acc @ [(ipaddr, rep)], out1))"

text \<open>
  The addresses for which the inner loop calls the enqueue callback, given the rounds
  that are left, the cursor and \<^verbatim>\<open>more\<close>.
\<close>

fun batch_addrs ::
  "nat \<Rightarrow> (fr_ipaddr \<Rightarrow> (fr_ipaddr \<times> bool) option) \<Rightarrow> fr_ipaddr \<Rightarrow> bool \<Rightarrow> fr_ipaddr list" where
  "batch_addrs 0 nxt ipaddr has_more = []"
| "batch_addrs (Suc n) nxt ipaddr has_more =
     (if \<not> has_more then []
      else ipaddr # (case nxt ipaddr of
                       None \<Rightarrow> []
                     | Some (ipaddr1, more1) \<Rightarrow> batch_addrs n nxt ipaddr1 more1))"

text \<open>
  What the store replies to the six commands Show queues for one address, and the
  lease record that \<^verbatim>\<open>_driver_show_lease_process\<close> makes of the last of them for an
  address that has an index entry.
\<close>

definition show_group :: "redis \<Rightarrow> string \<Rightarrow> string \<Rightarrow> reply list" where
  "show_group s pool ip =
     [REDIS_REPLY_STATUS ''OK'', REDIS_REPLY_STATUS ''QUEUED'', REDIS_REPLY_STATUS ''QUEUED'',
      REDIS_REPLY_STATUS ''QUEUED'', REDIS_REPLY_STATUS ''QUEUED'',
      REDIS_REPLY_ARRAY
        [nil_or_string (map_option score_string (zsets s (pool_key pool) ip)),
         nil_or_string (hashes s (address_key pool ip) ''device''),
         nil_or_string (hashes s (address_key pool ip) ''gateway''),
         nil_or_string (hashes s (address_key pool ip) ''range'')]]"

definition stored_lease :: "redis \<Rightarrow> string \<Rightarrow> string \<Rightarrow> fr_ipaddr \<Rightarrow> ippool_tool_lease" where
  "stored_lease s pool ip ipaddr =
     \<lparr>lease_ipaddr = ipaddr,
      lease_next_event = of_nat (strtoull (score_string (the (zsets s (pool_key pool) ip)))),
      lease_range = hashes s (address_key pool ip) ''range'',
      lease_device = hashes s (address_key pool ip) ''device'',
      lease_gateway = hashes s (address_key pool ip) ''gateway''\<rparr>"

text \<open>The six commands \<^verbatim>\<open>_driver_show_lease_enqueue\<close> queues for an address text.\<close>

definition show_cmds :: "string \<Rightarrow> string \<Rightarrow> command list" where
  "show_cmds pool ip =
     [MULTI, ZSCORE (pool_key pool) ip, HGET (address_key pool ip) ''device'',
      HGET (address_key pool ip) ''gateway'', HGET (address_key pool ip) ''range'', EXEC]"

text \<open>
  A keyspace for the worked examples with two addresses in pool \<^verbatim>\<open>p\<close>: \<^verbatim>\<open>10.0.0.1\<close>
  leased to a device and \<^verbatim>\<open>10.0.0.2\<close> as Add leaves it.
\<close>

definition example_two_leases :: redis where
  "example_two_leases =
     snd (redis_HSET (address_key ''p'' ''10.0.0.2'') ''range'' ''r1''
       (snd (redis_ZADD_NX (pool_key ''p'') 0 ''10.0.0.2'' example_leased)))"

text \<open>
  The four commands \<^verbatim>\<open>_driver_add_lease_enqueue\<close> queues for an address text, and the
  replies to them when the address is in the index already: \<^verbatim>\<open>ZADD ... NX\<close> replies 0
  and \<^verbatim>\<open>HSET\<close> replies \<open>n\<close>.
\<close>

definition add_cmds :: "string \<Rightarrow> string \<Rightarrow> string \<Rightarrow> command list" where
  "add_cmds pool rng ip =
     [MULTI, ZADD_NX (pool_key pool) 0 ip, HSET (address_key pool ip) ''range'' rng, EXEC]"

definition add_group :: "int \<Rightarrow> reply list" where
  "add_group n =
     [REDIS_REPLY_STATUS ''OK'', REDIS_REPLY_STATUS ''QUEUED'', REDIS_REPLY_STATUS ''QUEUED'',
      REDIS_REPLY_ARRAY [REDIS_REPLY_INTEGER 0, REDIS_REPLY_INTEGER n]]"

text \<open>
  The keyspace in which the metadata of each of the address texts \<open>ips\<close> has its range
  field set to \<open>rng\<close>, and everything else is as in \<open>s\<close>.
\<close>

definition retagged :: "string \<Rightarrow> string \<Rightarrow> string list \<Rightarrow> redis \<Rightarrow> redis" where
  "retagged pool rng ips s =
     s\<lparr>hashes := (\<lambda>k. if k \<in> address_key pool ` set ips then (hashes s k)(''range'' \<mapsto> rng)
                        else hashes s k)\<rparr>"

text \<open>
  The list \<open>xs\<close> holds the addresses the cursor takes from \<open>a\<close> on: every element but
  the last is followed by the address \<open>nxt\<close> moves to from it, and at the last one
  \<open>nxt\<close> reports that there is no more.
\<close>

fun walks :: "(fr_ipaddr \<Rightarrow> (fr_ipaddr \<times> bool) option) \<Rightarrow> fr_ipaddr \<Rightarrow> fr_ipaddr list \<Rightarrow> bool" where
  "walks nxt a [] \<longleftrightarrow> False"
| "walks nxt a (x # xs) \<longleftrightarrow>
     x = a \<and> (case nxt a of None \<Rightarrow> False
              | Some (a1, has_more) \<Rightarrow> if has_more then walks nxt a1 xs else xs = [])"

section \<open>Properties of WideInteger\<close>

lemma u128_of_val: "u128_of (u128_val a) = a"
  apply (cases a)
  apply (simp add: u128_of_def u128_val_def)
  apply (rule conjI)
   apply (rule bit_word_eqI; auto simp add: bit_simps dest: bit_imp_le_length)
  apply (rule bit_word_eqI; auto simp add: bit_simps dest: bit_imp_le_length)
  done

lemma u128_val_of: "u128_val (u128_of w) = w"
  apply (simp add: u128_of_def u128_val_def)
  apply (rule bit_word_eqI; auto simp add: bit_simps)
  done

lemma uint128_lshift_below_64:
  "0 < b \<Longrightarrow> b < 64 \<Longrightarrow>
   map_option u128_val (uint128_lshift a b) = Some (push_bit b (u128_val a))"
  apply (simp add: uint128_lshift_def shl64_def shr64_def u128_val_def)
  apply (rule bit_word_eqI; auto simp add: bit_simps add.commute dest: bit_imp_le_length)
  done

lemma uint128_lshift_from_64:
  "64 \<le> bits \<Longrightarrow> bits < 128 \<Longrightarrow> uint128_lshift num bits = Some \<lparr>h = 0, l = 0\<rparr>"
  by (cases num) (simp add: uint128_lshift_def shl64_def Let_def)

lemma unat_2p: "n < LENGTH('a::len) \<Longrightarrow> unat (2 ^ n :: 'a word) = 2 ^ n"
proof -
  assume n: "n < LENGTH('a)"
  have "(2 ^ n :: 'a word) = of_nat (2 ^ n)" by simp
  then have "unat (2 ^ n :: 'a word) = 2 ^ n mod 2 ^ LENGTH('a)" by (simp only: unat_of_nat)
  with n show ?thesis by simp
qed

lemma unat_add_2p:
  fixes x e :: "'a::len word"
  assumes "n < LENGTH('a)" "unat x + 2 ^ n \<le> unat e"
  shows "unat (x + 2 ^ n) = unat x + 2 ^ n"
proof -
  have "unat e < 2 ^ LENGTH('a)" by (rule unsigned_less)
  with assms(2) have "unat x + 2 ^ n < 2 ^ LENGTH('a)" by linarith
  then have "unat x + unat (2 ^ n :: 'a word) < 2 ^ LENGTH('a)"
    by (simp add: unat_2p [OF assms(1)])
  then have "unat (x + 2 ^ n) = unat x + unat (2 ^ n :: 'a word)"
    by (simp add: unat_add_lem [THEN iffD1])
  then show ?thesis by (simp add: unat_2p [OF assms(1)])
qed

text \<open>The carry of \<^verbatim>\<open>uint128_add\<close>: the bit that leaves the low halves' sum.\<close>

lemma unat_and_and_1:
  fixes x y :: "'a::len word"
  shows "unat ((x AND y) AND 1) = (unat x mod 2) * (unat y mod 2)"
proof -
  have "(x AND y) AND 1 = of_bool (odd x \<and> odd y)"
    by (simp add: and_one_eq mod_2_eq_odd even_and_iff)
  moreover have "odd x \<longleftrightarrow> odd (unat x)" by (simp flip: bit_0 add: bit_unsigned_iff)
  moreover have "odd y \<longleftrightarrow> odd (unat y)" by (simp flip: bit_0 add: bit_unsigned_iff)
  ultimately show ?thesis by (auto simp: mod_2_eq_odd)
qed

lemma half_sum: "(a mod 2) * (b mod 2) + a div 2 + b div 2 = (a + b) div (2::nat)"
  by (cases "even a"; cases "even b") (auto simp: mod_2_eq_odd elim!: evenE oddE)

lemma unat_carry:
  fixes x y :: "64 word"
  shows "unat (drop_bit 63 (((x AND y) AND 1) + drop_bit 1 x + drop_bit 1 y))
         = (unat x + unat y) div 2 ^ 64"
proof -
  let ?c = "(unat x mod 2) * (unat y mod 2)"
  have x: "unat x < 2 ^ 64" and y: "unat y < 2 ^ 64"
    using unsigned_less [of x] unsigned_less [of y] by simp_all
  have d: "unat (drop_bit 1 x) = unat x div 2" "unat (drop_bit 1 y) = unat y div 2"
    unfolding unat_drop_bit_eq by (simp_all add: drop_bit_eq_div)
  have s: "?c + unat x div 2 + unat y div 2 = (unat x + unat y) div 2" by (rule half_sum)
  have lt: "(unat x + unat y) div 2 < 2 ^ 64" using x y by simp
  have "unat (((x AND y) AND 1) + drop_bit 1 x + drop_bit 1 y)
        = (?c + unat x div 2 + unat y div 2) mod 2 ^ 64"
    by (simp only: unat_word_ariths unat_and_and_1 d mod_simps) simp
  also have "\<dots> = (unat x + unat y) div 2" using s lt by simp
  finally have u: "unat (((x AND y) AND 1) + drop_bit 1 x + drop_bit 1 y)
                   = (unat x + unat y) div 2" .
  have "unat (drop_bit 63 (((x AND y) AND 1) + drop_bit 1 x + drop_bit 1 y))
        = ((unat x + unat y) div 2) div 2 ^ 63"
    unfolding unat_drop_bit_eq u by (simp add: drop_bit_eq_div)
  also have "\<dots> = (unat x + unat y) div 2 ^ 64" by (simp add: div_mult2_eq [symmetric])
  finally show ?thesis .
qed

lemma unat_u128_val: "unat (u128_val a) = unat (h a) * 2 ^ 64 + unat (l a)"
proof -
  have disj: "push_bit 64 (ucast (h a) :: 128 word) OR ucast (l a)
              = push_bit 64 (ucast (h a)) + ucast (l a)"
    by (rule disjunctive_add_eq_or [symmetric], rule bit_word_eqI)
       (auto simp: bit_simps dest: bit_imp_le_length)
  have hl: "unat (h a) < 2 ^ 64" "unat (l a) < 2 ^ 64"
    using unsigned_less [of "h a"] unsigned_less [of "l a"] by simp_all
  have u: "unat (ucast w :: 128 word) = unat w" for w :: "64 word"
  proof -
    have "unat w < 2 ^ 64" using unsigned_less [of w] by simp
    then have "unat w < 2 ^ 128" by simp
    then show ?thesis by (simp add: unsigned_ucast_eq take_bit_nat_eq_self)
  qed
  have "unat (h a) * 2 ^ 64 < 2 ^ 64 * 2 ^ 64" using hl(1) by simp
  then have "unat (h a) * 2 ^ 64 < 2 ^ 128" by simp
  then have p: "unat (push_bit 64 (ucast (h a) :: 128 word)) = unat (h a) * 2 ^ 64"
    unfolding unsigned_push_bit_eq u by (simp add: push_bit_eq_mult take_bit_nat_eq_self)
  have "unat (h a) * 2 ^ 64 + unat (l a) < 2 ^ 128" using hl by simp
  then show ?thesis
    by (simp add: u128_val_def disj unat_word_ariths p u)
qed

lemma mod_square:
  fixes X r M :: nat
  assumes "r < M"
  shows "(X * M + r) mod (M * M) = (X mod M) * M + r"
proof -
  have "(X * M + r) div M = X" using assms by simp
  moreover have "(X * M + r) mod M = r" using assms by simp
  ultimately show ?thesis using mod_mult2_eq [of "X * M + r" M M] by (simp add: mult.commute)
qed

text \<open>\<^verbatim>\<open>uint128_add\<close> on two halves is addition modulo \<open>2^128\<close>.\<close>

lemma uint128_add_val: "u128_val (uint128_add a b) = u128_val a + u128_val b"
proof -
  let ?M = "2 ^ 64 :: nat"
  let ?S = "unat (l a) + unat (l b)"
  let ?X = "unat (h a) + unat (h b) + ?S div ?M"
  have hi: "unat (h (uint128_add a b)) = ?X mod ?M"
    unfolding uint128_add_def Let_def
    by (simp only: uint128.simps unat_word_ariths unat_carry) (simp add: mod_simps)
  have lo: "unat (l (uint128_add a b)) = ?S mod ?M"
    by (simp add: uint128_add_def Let_def unat_word_ariths)
  have "unat (u128_val (uint128_add a b)) = (?X mod ?M) * ?M + ?S mod ?M"
    by (simp only: unat_u128_val hi lo)
  also have "\<dots> = (?X * ?M + ?S mod ?M) mod (?M * ?M)"
    by (rule mod_square [symmetric]) simp
  also have "?X * ?M + ?S mod ?M = unat (h a) * ?M + unat (l a) + (unat (h b) * ?M + unat (l b))"
    by (simp add: algebra_simps)
  also have "\<dots> mod (?M * ?M) = unat (u128_val a + u128_val b)"
    by (simp add: unat_word_ariths unat_u128_val)
  finally show ?thesis by (simp add: word_unat_eq_iff)
qed

text \<open>
  Claim C8. The 128-bit OR on two halves is to return the bitwise OR of its operands,
  half by half. The low half does; the high half is computed with \<^verbatim>\<open>+\<close>. At
  \<open>a = b = 2^64\<close> (high halves 1, low halves 0) the function returns high half 2, that
  is \<open>2^65\<close>, where the bitwise OR is \<open>2^64\<close>.
\<close>

theorem uint128_bor_high_half_adds:
  "uint128_bor \<lparr>h = 1, l = 0\<rparr> \<lparr>h = 1, l = 0\<rparr> = \<lparr>h = 2, l = 0\<rparr> \<and>
   u128_val (uint128_bor \<lparr>h = 1, l = 0\<rparr> \<lparr>h = 1, l = 0\<rparr>)
     \<noteq> u128_val \<lparr>h = 1, l = 0\<rparr> OR u128_val \<lparr>h = 1, l = 0\<rparr>"
  by (simp add: uint128_bor_def u128_val_def)

text \<open>
  Claim C9. The 128-bit left shift on two halves is to return \<open>(a * 2^b) mod 2^128\<close>
  for \<open>0 < b < 128\<close>. For \<open>b \<ge> 64\<close> the function clears the low half and then shifts
  the cleared half into the high half: at \<open>a = 1\<close>, \<open>b = 64\<close> it returns 0 where
  \<open>a * 2^64 = 2^64\<close>.
\<close>

theorem uint128_lshift_64_returns_zero:
  "uint128_lshift \<lparr>h = 0, l = 1\<rparr> 64 = Some \<lparr>h = 0, l = 0\<rparr> \<and>
   map_option u128_val (uint128_lshift \<lparr>h = 0, l = 1\<rparr> 64)
     \<noteq> Some (u128_val \<lparr>h = 0, l = 1\<rparr> * 2 ^ 64)"
  by (simp add: uint128_lshift_def shl64_def u128_val_def)

section \<open>Properties of AddressRange\<close>

lemma walk_by_steps:
  assumes step: "\<And>a. af a = fam \<Longrightarrow> addr_val a + s \<le> addr_val e \<Longrightarrow>
             \<exists>a'. ipaddr_next b a e p = Some (a', True) \<and> af a' = fam \<and> addr_val a' = addr_val a + s"
    and stop: "\<And>a. af a = fam \<Longrightarrow> addr_val a = addr_val e \<Longrightarrow> ipaddr_next b a e p = Some (a, False)"
    and "af a = fam" "addr_val a + k * s = addr_val e"
  shows "\<exists>xs. ipaddr_walk b a e p = Some xs \<and> length xs = Suc k \<and> hd xs = a \<and>
              (\<forall>i\<le>k. af (xs ! i) = fam \<and> addr_val (xs ! i) = addr_val a + i * s)"
  using assms(3,4)
proof (induction k arbitrary: a)
  case 0
  then have "ipaddr_next b a e p = Some (a, False)" by (simp add: stop)
  then have "ipaddr_walk b a e p = Some [a]" by (subst ipaddr_walk.simps) simp
  with 0 show ?case by simp
next
  case (Suc k)
  from Suc.prems have "addr_val a + s \<le> addr_val e" by simp
  with step [OF Suc.prems(1)] obtain a' where
    nx: "ipaddr_next b a e p = Some (a', True)" and af': "af a' = fam"
    and v': "addr_val a' = addr_val a + s" by blast
  from Suc.prems v' have "addr_val a' + k * s = addr_val e" by simp
  from Suc.IH [OF af' this] obtain ys where
    ys: "ipaddr_walk b a' e p = Some ys" "length ys = Suc k" "hd ys = a'"
    "\<forall>i\<le>k. af (ys ! i) = fam \<and> addr_val (ys ! i) = addr_val a' + i * s" by blast
  have w: "ipaddr_walk b a e p = Some (a # ys)"
    by (subst ipaddr_walk.simps) (simp add: nx ys(1))
  have "af ((a # ys) ! i) = fam \<and> addr_val ((a # ys) ! i) = addr_val a + i * s" if "i \<le> Suc k" for i
  proof (cases i)
    case 0
    then show ?thesis using Suc.prems(1) by simp
  next
    case (Suc j)
    with that have "j \<le> k" by simp
    with ys(4) Suc v' show ?thesis by simp
  qed
  with w ys(2) show ?case by simp
qed

lemma ipaddr_next_step_inet:
  assumes "af a = AF_INET" "0 < p" "p \<le> 32" "addr_val a + 2 ^ (32 - p) \<le> addr_val e" "af e = AF_INET"
  shows "\<exists>a'. ipaddr_next b a e p = Some (a', True) \<and> af a' = AF_INET \<and> addr_val a' = addr_val a + 2 ^ (32 - p)"
proof -
  from assms have le: "unat (ip4addr a) + 2 ^ (32 - p) \<le> unat (ip4addr e)"
    by (simp add: addr_val_def)
  have "(0::nat) < 2 ^ (32 - p)" by simp
  with le have "unat (ip4addr a) \<noteq> unat (ip4addr e)" by linarith
  then have ne: "ip4addr a \<noteq> ip4addr e" by auto
  have "unat (ip4addr a + 2 ^ (32 - p)) = unat (ip4addr a) + 2 ^ (32 - p)"
    using assms(2) le by (intro unat_add_2p) simp_all
  with assms ne show ?thesis by (simp add: ipaddr_next_def addr_val_def)
qed

lemma ipaddr_next_stop_inet:
  assumes "af a = AF_INET" "0 < p" "p \<le> 32" "addr_val a = addr_val e" "af e = AF_INET"
  shows "ipaddr_next b a e p = Some (a, False)"
proof -
  from assms have "ip4addr a = ip4addr e" by (simp add: addr_val_def word_unat_eq_iff)
  with assms show ?thesis by (simp add: ipaddr_next_def)
qed

lemma ipaddr_next_step_inet6_native:
  assumes "af a = AF_INET6" "0 < p" "p \<le> 128" "addr_val a + 2 ^ (128 - p) \<le> addr_val e" "af e = AF_INET6"
  shows "\<exists>a'. ipaddr_next True a e p = Some (a', True) \<and> af a' = AF_INET6 \<and> addr_val a' = addr_val a + 2 ^ (128 - p)"
proof -
  from assms have le: "unat (ip6addr a) + 2 ^ (128 - p) \<le> unat (ip6addr e)"
    by (simp add: addr_val_def)
  have "(0::nat) < 2 ^ (128 - p)" by simp
  with le have "unat (ip6addr a) \<noteq> unat (ip6addr e)" by linarith
  then have ne: "ip6addr a \<noteq> ip6addr e" by auto
  have "unat (ip6addr a + 2 ^ (128 - p)) = unat (ip6addr a) + 2 ^ (128 - p)"
    using assms(2) le by (intro unat_add_2p) simp_all
  with assms ne show ?thesis by (simp add: ipaddr_next_def addr_val_def uint128_lshift_native_def)
qed

lemma ipaddr_next_stop_inet6_native:
  assumes "af a = AF_INET6" "0 < p" "p \<le> 128" "addr_val a = addr_val e" "af e = AF_INET6"
  shows "ipaddr_next True a e p = Some (a, False)"
proof -
  from assms have "ip6addr a = ip6addr e" by (simp add: addr_val_def word_unat_eq_iff)
  with assms show ?thesis by (simp add: ipaddr_next_def)
qed

lemma uint128_eq_iff: "uint128_eq (u128_of x) (u128_of y) \<longleftrightarrow> x = y"
proof
  assume "uint128_eq (u128_of x) (u128_of y)"
  then have "u128_of x = u128_of y" by (simp add: uint128_eq_def u128_of_def)
  then have "u128_val (u128_of x) = u128_val (u128_of y)" by simp
  then show "x = y" by (simp add: u128_val_of)
qed (simp add: uint128_eq_def)

lemma uint128_lshift_one:
  assumes "0 < b" "b < 64"
  shows "\<exists>inc. uint128_lshift (uint128_new 0 1) b = Some inc \<and> u128_val inc = 2 ^ b"
proof -
  from uint128_lshift_below_64 [OF assms, of "uint128_new 0 1"]
  obtain inc where "uint128_lshift (uint128_new 0 1) b = Some inc"
    "u128_val inc = push_bit b (u128_val (uint128_new 0 1))" by auto
  moreover have "u128_val (uint128_new 0 1) = 1" by (simp add: u128_val_def uint128_new_def)
  ultimately show ?thesis by simp
qed

lemma ipaddr_next_step_inet6_halves:
  assumes "af a = AF_INET6" "64 < p" "p < 128" "addr_val a + 2 ^ (128 - p) \<le> addr_val e" "af e = AF_INET6"
  shows "\<exists>a'. ipaddr_next False a e p = Some (a', True) \<and> af a' = AF_INET6 \<and> addr_val a' = addr_val a + 2 ^ (128 - p)"
proof -
  from assms have le: "unat (ip6addr a) + 2 ^ (128 - p) \<le> unat (ip6addr e)"
    by (simp add: addr_val_def)
  have "(0::nat) < 2 ^ (128 - p)" by simp
  with le have "unat (ip6addr a) \<noteq> unat (ip6addr e)" by linarith
  then have ne: "ip6addr a \<noteq> ip6addr e" by auto
  have un: "unat (ip6addr a + 2 ^ (128 - p)) = unat (ip6addr a) + 2 ^ (128 - p)"
    using assms(2) le by (intro unat_add_2p) simp_all
  from assms(2,3) have "0 < 128 - p" "128 - p < 64" by simp_all
  from uint128_lshift_one [OF this] obtain inc where
    inc: "uint128_lshift (uint128_new 0 1) (128 - p) = Some inc" "u128_val inc = 2 ^ (128 - p)" by blast
  have "u128_val (uint128_add (u128_of (ip6addr a)) inc) = ip6addr a + 2 ^ (128 - p)"
    by (simp add: uint128_add_val u128_val_of inc(2))
  with assms ne un inc(1) show ?thesis
    by (simp add: ipaddr_next_def addr_val_def uint128_eq_iff)
qed

lemma ipaddr_next_stop_inet6_halves:
  assumes "af a = AF_INET6" "0 < p" "p \<le> 128" "addr_val a = addr_val e" "af e = AF_INET6"
  shows "ipaddr_next False a e p = Some (a, False)"
proof -
  from assms have "ip6addr a = ip6addr e" by (simp add: addr_val_def word_unat_eq_iff)
  with assms show ?thesis by (simp add: ipaddr_next_def uint128_eq_iff)
qed

lemma nth_sorted_wrt:
  assumes "\<And>i j. i < j \<Longrightarrow> j < length xs \<Longrightarrow> P (xs ! i) (xs ! j)"
  shows "sorted_wrt P xs"
  using assms by (simp add: sorted_wrt_iff_nth_less)

text \<open>
  Two ways for the enumeration not to return: the cursor does not move, or the cursor
  steps over an end address it can never hit.
\<close>

lemma ipaddr_walk_stuck:
  assumes "ipaddr_walk b a e p = Some xs"
  shows "ipaddr_next b a e p \<noteq> Some (a, True)"
proof (rule ipaddr_walk.raw_induct
    [where P = "\<lambda>b a e p xs. ipaddr_next b a e p \<noteq> Some (a, True)", OF _ assms])
  fix walk b a e p and xs :: "fr_ipaddr list"
  assume IH: "\<And>b a e p ys. walk b a e p = Some ys \<Longrightarrow> ipaddr_next b a e p \<noteq> Some (a, True)"
    and eq: "(case ipaddr_next b a e p of None \<Rightarrow> None
      | Some (nxt, has_more) \<Rightarrow>
          if has_more
          then Option.bind (walk b nxt e p) (\<lambda>rest. Some (a # rest))
          else Some [a]) = Some xs"
  show "ipaddr_next b a e p \<noteq> Some (a, True)"
  proof
    assume nx: "ipaddr_next b a e p = Some (a, True)"
    with eq obtain ys where "walk b a e p = Some ys"
      by (auto split: Option.bind_splits)
    from IH [OF this] nx show False by simp
  qed
qed

lemma ipaddr_walk_odd_end:
  assumes "ipaddr_walk b a e p = Some xs"
  shows "\<not> (af a = AF_INET \<and> p = 31 \<and> even (ip4addr a) \<and> odd (ip4addr e))"
proof (rule ipaddr_walk.raw_induct
    [where P = "\<lambda>b a e p xs. \<not> (af a = AF_INET \<and> p = 31 \<and> even (ip4addr a) \<and> odd (ip4addr e))", OF _ assms])
  fix walk b a e p and xs :: "fr_ipaddr list"
  assume IH: "\<And>b a e p ys. walk b a e p = Some ys \<Longrightarrow> \<not> (af a = AF_INET \<and> p = 31 \<and> even (ip4addr a) \<and> odd (ip4addr e))"
    and eq: "(case ipaddr_next b a e p of None \<Rightarrow> None
      | Some (nxt, has_more) \<Rightarrow>
          if has_more
          then Option.bind (walk b nxt e p) (\<lambda>rest. Some (a # rest))
          else Some [a]) = Some xs"
  show "\<not> (af a = AF_INET \<and> p = 31 \<and> even (ip4addr a) \<and> odd (ip4addr e))"
  proof
    assume A: "af a = AF_INET \<and> p = 31 \<and> even (ip4addr a) \<and> odd (ip4addr e)"
    then have ne: "ip4addr a \<noteq> ip4addr e" by auto
    with A have nx: "ipaddr_next b a e p = Some (a\<lparr>ip4addr := ip4addr a + 2\<rparr>, True)"
      by (simp add: ipaddr_next_def)
    with eq obtain ys where "walk b (a\<lparr>ip4addr := ip4addr a + 2\<rparr>) e p = Some ys"
      by (auto split: Option.bind_splits)
    from IH [OF this] A show False by simp
  qed
qed

text \<open>
  Claim C5, as amended. Take an interval of one family (IPv4 or IPv6) with
  \<open>start \<le> end\<close>, a prefix length \<open>1 \<le> p \<le> width\<close>, and \<open>end - start\<close> a multiple
  of the step \<open>2^(width - p)\<close> (the intervals \<^verbatim>\<open>parse_ip_range\<close> builds are of this
  form). Then calling \<^verbatim>\<open>ipaddr_next\<close> repeatedly from \<open>start\<close> returns: it enumerates
  exactly \<open>((end - start) >> (width - p)) + 1\<close> addresses, the \<open>i\<close>-th being
  \<open>start + i * 2^(width - p)\<close>, strictly increasing and distinct, none beyond \<open>end\<close>,
  the last one \<open>end\<close>; and at each of them \<^verbatim>\<open>ipaddr_next\<close> returns \<^verbatim>\<open>true\<close> exactly
  when the address is not \<open>end\<close>. This holds for IPv4 in every build, for IPv6 with
  native 128-bit integers, and for IPv6 on two halves when \<open>64 < p < 128\<close>.
\<close>

theorem ipaddr_walk_enumerates_interval:
  assumes fam: "af start = fam" "af end_addr = fam" "fam = AF_INET \<or> fam = AF_INET6"
    and pfx: "0 < p" "p \<le> IPADDR_LEN fam"
    and build: "have_128bit \<or> fam = AF_INET \<or> (64 < p \<and> p < 128)"
    and le: "addr_val start \<le> addr_val end_addr"
    and aligned: "2 ^ (IPADDR_LEN fam - p) dvd (addr_val end_addr - addr_val start)"
  shows "\<exists>xs. ipaddr_walk have_128bit start end_addr p = Some xs \<and>
           length xs = drop_bit (IPADDR_LEN fam - p) (addr_val end_addr - addr_val start) + 1 \<and>
           hd xs = start \<and>
           (\<forall>i<length xs. addr_val (xs ! i) = addr_val start + i * 2 ^ (IPADDR_LEN fam - p)) \<and>
           sorted_wrt (\<lambda>a b. addr_val a < addr_val b) xs \<and> distinct xs \<and>
           (\<forall>a\<in>set xs. addr_val a \<le> addr_val end_addr) \<and>
           addr_val (last xs) = addr_val end_addr \<and>
           (\<forall>a\<in>set xs. \<exists>a'. ipaddr_next have_128bit a end_addr p
                                 = Some (a', addr_val a \<noteq> addr_val end_addr))"
proof -
  let ?s = "2 ^ (IPADDR_LEN fam - p) :: nat"
  define k where "k = (addr_val end_addr - addr_val start) div ?s"
  have k: "addr_val start + k * ?s = addr_val end_addr"
    using le aligned by (simp add: k_def)
  have step: "\<exists>a'. ipaddr_next have_128bit a end_addr p = Some (a', True) \<and> af a' = fam \<and>
                addr_val a' = addr_val a + ?s"
    if "af a = fam" "addr_val a + ?s \<le> addr_val end_addr" for a
    using fam(3)
  proof
    assume f: "fam = AF_INET"
    with that fam pfx show ?thesis
      using ipaddr_next_step_inet [of a p end_addr have_128bit] by (simp add: IPADDR_LEN_def)
  next
    assume f: "fam = AF_INET6"
    show ?thesis
    proof (cases have_128bit)
      case True
      with f that fam pfx show ?thesis
        using ipaddr_next_step_inet6_native [of a p end_addr] by (simp add: IPADDR_LEN_def)
    next
      case False
      with build f have "64 < p" "p < 128" by simp_all
      with False f that fam show ?thesis
        using ipaddr_next_step_inet6_halves [of a p end_addr] by (simp add: IPADDR_LEN_def)
    qed
  qed
  have stop: "ipaddr_next have_128bit a end_addr p = Some (a, False)"
    if "af a = fam" "addr_val a = addr_val end_addr" for a
    using fam(3)
  proof
    assume f: "fam = AF_INET"
    with that fam pfx show ?thesis
      using ipaddr_next_stop_inet [of a p end_addr have_128bit] by (simp add: IPADDR_LEN_def)
  next
    assume f: "fam = AF_INET6"
    with that fam pfx show ?thesis
      using ipaddr_next_stop_inet6_native [of a p end_addr]
        ipaddr_next_stop_inet6_halves [of a p end_addr]
      by (cases have_128bit) (simp_all add: IPADDR_LEN_def)
  qed
  from walk_by_steps [of fam ?s end_addr have_128bit p start k, OF step stop fam(1) k]
  obtain xs where xs: "ipaddr_walk have_128bit start end_addr p = Some xs" "length xs = Suc k"
    "hd xs = start"
    "\<forall>i\<le>k. af (xs ! i) = fam \<and> addr_val (xs ! i) = addr_val start + i * ?s" by blast
  have nth: "addr_val (xs ! i) = addr_val start + i * ?s" "af (xs ! i) = fam" if "i < length xs" for i
    using that xs(2,4) by simp_all
  have len: "length xs = drop_bit (IPADDR_LEN fam - p) (addr_val end_addr - addr_val start) + 1"
    by (simp add: xs(2) k_def drop_bit_eq_div)
  have mono: "addr_val (xs ! i) < addr_val (xs ! j)" if "i < j" "j < length xs" for i j
    using that by (simp add: nth)
  have sorted: "sorted_wrt (\<lambda>a b. addr_val a < addr_val b) xs"
    by (rule nth_sorted_wrt) (rule mono)
  have dist: "distinct xs"
  proof -
    have "xs ! i \<noteq> xs ! j" if "i < length xs" "j < length xs" "i \<noteq> j" for i j
    proof
      assume "xs ! i = xs ! j"
      then have "addr_val (xs ! i) = addr_val (xs ! j)" by simp
      with that show False by (simp add: nth)
    qed
    then show ?thesis by (simp add: distinct_conv_nth)
  qed
  have "xs \<noteq> []" using xs(2) by auto
  then have "last xs = xs ! k" using xs(2) by (simp add: last_conv_nth)
  then have lst: "addr_val (last xs) = addr_val end_addr" using nth(1) [of k] xs(2) k by simp
  have bound: "addr_val a \<le> addr_val end_addr" if "a \<in> set xs" for a
  proof -
    from that obtain i where i: "i < length xs" "a = xs ! i" by (auto simp: in_set_conv_nth)
    then have "i \<le> k" using xs(2) by simp
    with i show ?thesis unfolding k [symmetric] by (simp add: nth(1))
  qed
  have flag: "\<exists>a'. ipaddr_next have_128bit a end_addr p = Some (a', addr_val a \<noteq> addr_val end_addr)"
    if "a \<in> set xs" for a
  proof -
    from that obtain i where i: "i < length xs" "a = xs ! i" by (auto simp: in_set_conv_nth)
    then have afa: "af a = fam" by (simp add: nth(2))
    show ?thesis
    proof (cases "addr_val a = addr_val end_addr")
      case True
      with stop [OF afa] show ?thesis by simp
    next
      case False
      from i have "i \<le> k" using xs(2) by simp
      with False i k have "i < k" by (cases "i = k") (auto simp: nth(1))
      then have "Suc i * ?s \<le> k * ?s" by (intro mult_le_mono1) simp
      then have "addr_val start + i * ?s + ?s \<le> addr_val start + k * ?s" by simp
      with i have "addr_val a + ?s \<le> addr_val end_addr" unfolding k by (simp add: nth(1))
      from step [OF afa this] False show ?thesis by auto
    qed
  qed
  from xs(1) len xs(3) nth(1) sorted dist bound lst flag show ?thesis by blast
qed

theorem ipaddr_walk_enumerates_interval_witness:
  "(\<exists>xs. ipaddr_walk False \<lparr>af = AF_INET, ip4addr = 0x0A000000, ip6addr = 0, prefix = 32\<rparr>
            \<lparr>af = AF_INET, ip4addr = 0x0A000003, ip6addr = 0, prefix = 32\<rparr> 32 = Some xs \<and>
         length xs = 4 \<and> distinct xs \<and> addr_val (last xs) = 0x0A000003) \<and>
   (\<exists>xs. ipaddr_walk True \<lparr>af = AF_INET6, ip4addr = 0, ip6addr = 0, prefix = 64\<rparr>
            \<lparr>af = AF_INET6, ip4addr = 0, ip6addr = 0x10000000000000000, prefix = 64\<rparr> 64
          = Some xs \<and>
         length xs = 2 \<and> distinct xs \<and> addr_val (last xs) = 0x10000000000000000) \<and>
   (\<exists>xs. ipaddr_walk False \<lparr>af = AF_INET6, ip4addr = 0, ip6addr = 0, prefix = 127\<rparr>
            \<lparr>af = AF_INET6, ip4addr = 0, ip6addr = 6, prefix = 127\<rparr> 127 = Some xs \<and>
         length xs = 4 \<and> distinct xs \<and> addr_val (last xs) = 6)"
proof -
  let ?a0 = "\<lparr>af = AF_INET, ip4addr = 0x0A000000, ip6addr = 0, prefix = 32\<rparr>"
  let ?a3 = "\<lparr>af = AF_INET, ip4addr = 0x0A000003, ip6addr = 0, prefix = 32\<rparr>"
  let ?b0 = "\<lparr>af = AF_INET6, ip4addr = 0, ip6addr = 0, prefix = 64\<rparr>"
  let ?b1 = "\<lparr>af = AF_INET6, ip4addr = 0, ip6addr = 0x10000000000000000, prefix = 64\<rparr>"
  let ?c0 = "\<lparr>af = AF_INET6, ip4addr = 0, ip6addr = 0, prefix = 127\<rparr>"
  let ?c3 = "\<lparr>af = AF_INET6, ip4addr = 0, ip6addr = 6, prefix = 127\<rparr>"
  have va: "addr_val ?a0 = 0x0A000000" "addr_val ?a3 = 0x0A000003"
    and vb: "addr_val ?b0 = 0" "addr_val ?b1 = 0x10000000000000000"
    and vc: "addr_val ?c0 = 0" "addr_val ?c3 = 6"
    by (simp_all add: addr_val_def)
  have na: "drop_bit (IPADDR_LEN AF_INET - 32) (0x0A000003 - 0x0A000000) + 1 = (4::nat)"
    and nb: "drop_bit (IPADDR_LEN AF_INET6 - 64) (0x10000000000000000 - 0) + 1 = (2::nat)"
    and nc: "drop_bit (IPADDR_LEN AF_INET6 - 127) (6 - 0) + 1 = (4::nat)"
    by (simp_all add: IPADDR_LEN_def drop_bit_eq_div)
  have "\<exists>xs. ipaddr_walk False ?a0 ?a3 32 = Some xs \<and>
          length xs = drop_bit (IPADDR_LEN AF_INET - 32) (addr_val ?a3 - addr_val ?a0) + 1 \<and>
          distinct xs \<and> addr_val (last xs) = addr_val ?a3"
    using ipaddr_walk_enumerates_interval [of ?a0 AF_INET ?a3 32 False]
    unfolding va by (simp add: IPADDR_LEN_def) blast
  then have a: "\<exists>xs. ipaddr_walk False ?a0 ?a3 32 = Some xs \<and> length xs = 4 \<and> distinct xs \<and>
                  addr_val (last xs) = 0x0A000003"
    unfolding va na .
  have "\<exists>xs. ipaddr_walk True ?b0 ?b1 64 = Some xs \<and>
          length xs = drop_bit (IPADDR_LEN AF_INET6 - 64) (addr_val ?b1 - addr_val ?b0) + 1 \<and>
          distinct xs \<and> addr_val (last xs) = addr_val ?b1"
    using ipaddr_walk_enumerates_interval [of ?b0 AF_INET6 ?b1 64 True]
    unfolding vb by (simp add: IPADDR_LEN_def) blast
  then have b: "\<exists>xs. ipaddr_walk True ?b0 ?b1 64 = Some xs \<and> length xs = 2 \<and> distinct xs \<and>
                  addr_val (last xs) = 0x10000000000000000"
    unfolding vb nb .
  have "\<exists>xs. ipaddr_walk False ?c0 ?c3 127 = Some xs \<and>
          length xs = drop_bit (IPADDR_LEN AF_INET6 - 127) (addr_val ?c3 - addr_val ?c0) + 1 \<and>
          distinct xs \<and> addr_val (last xs) = addr_val ?c3"
    using ipaddr_walk_enumerates_interval [of ?c0 AF_INET6 ?c3 127 False]
    unfolding vc by (simp add: IPADDR_LEN_def) blast
  then have c: "\<exists>xs. ipaddr_walk False ?c0 ?c3 127 = Some xs \<and> length xs = 4 \<and> distinct xs \<and>
                  addr_val (last xs) = 6"
    unfolding vc nc .
  from a b c show ?thesis by blast
qed

text \<open>
  Claim C5 as stated fails in two places. The interval \<open>[0.0.0.0, 0.0.0.1]\<close> with
  prefix length 31 has \<open>start \<le> end\<close> and \<open>1 \<le> p \<le> 32\<close>, but \<^verbatim>\<open>ipaddr_next\<close> steps from
  \<open>0.0.0.0\<close> to \<open>0.0.0.2\<close>, past the end, and the enumeration never returns. On two
  halves, the IPv6 interval from \<open>::\<close> to \<open>0:0:0:1::\<close> with prefix length 64 makes
  \<^verbatim>\<open>ipaddr_next\<close> return \<^verbatim>\<open>true\<close> without moving (the shift by 64 yields 0), and the
  enumeration never returns either.
\<close>

theorem ipaddr_walk_counterexample:
  "ipaddr_next False \<lparr>af = AF_INET, ip4addr = 0, ip6addr = 0, prefix = 31\<rparr>
     \<lparr>af = AF_INET, ip4addr = 1, ip6addr = 0, prefix = 31\<rparr> 31
     = Some (\<lparr>af = AF_INET, ip4addr = 2, ip6addr = 0, prefix = 31\<rparr>, True) \<and>
   ipaddr_walk False \<lparr>af = AF_INET, ip4addr = 0, ip6addr = 0, prefix = 31\<rparr>
     \<lparr>af = AF_INET, ip4addr = 1, ip6addr = 0, prefix = 31\<rparr> 31 = None \<and>
   ipaddr_next False \<lparr>af = AF_INET6, ip4addr = 0, ip6addr = 0, prefix = 64\<rparr>
     \<lparr>af = AF_INET6, ip4addr = 0, ip6addr = 0x10000000000000000, prefix = 64\<rparr> 64
     = Some (\<lparr>af = AF_INET6, ip4addr = 0, ip6addr = 0, prefix = 64\<rparr>, True) \<and>
   ipaddr_walk False \<lparr>af = AF_INET6, ip4addr = 0, ip6addr = 0, prefix = 64\<rparr>
     \<lparr>af = AF_INET6, ip4addr = 0, ip6addr = 0x10000000000000000, prefix = 64\<rparr> 64 = None"
proof -
  have s4: "ipaddr_next False \<lparr>af = AF_INET, ip4addr = 0, ip6addr = 0, prefix = 31\<rparr>
     \<lparr>af = AF_INET, ip4addr = 1, ip6addr = 0, prefix = 31\<rparr> 31
     = Some (\<lparr>af = AF_INET, ip4addr = 2, ip6addr = 0, prefix = 31\<rparr>, True)"
    by (simp add: ipaddr_next_def)
  have "ipaddr_walk False \<lparr>af = AF_INET, ip4addr = 0, ip6addr = 0, prefix = 31\<rparr>
     \<lparr>af = AF_INET, ip4addr = 1, ip6addr = 0, prefix = 31\<rparr> 31 \<noteq> Some xs" for xs
    using ipaddr_walk_odd_end [of False "\<lparr>af = AF_INET, ip4addr = 0, ip6addr = 0, prefix = 31\<rparr>"
        "\<lparr>af = AF_INET, ip4addr = 1, ip6addr = 0, prefix = 31\<rparr>" 31 xs] by auto
  then have w4: "ipaddr_walk False \<lparr>af = AF_INET, ip4addr = 0, ip6addr = 0, prefix = 31\<rparr>
     \<lparr>af = AF_INET, ip4addr = 1, ip6addr = 0, prefix = 31\<rparr> 31 = None" by auto
  have s6: "ipaddr_next False \<lparr>af = AF_INET6, ip4addr = 0, ip6addr = 0, prefix = 64\<rparr>
     \<lparr>af = AF_INET6, ip4addr = 0, ip6addr = 0x10000000000000000, prefix = 64\<rparr> 64
     = Some (\<lparr>af = AF_INET6, ip4addr = 0, ip6addr = 0, prefix = 64\<rparr>, True)"
    by (simp add: ipaddr_next_def uint128_lshift_from_64 uint128_eq_def u128_of_def
        uint128_add_def u128_val_def)
  then have "ipaddr_walk False \<lparr>af = AF_INET6, ip4addr = 0, ip6addr = 0, prefix = 64\<rparr>
     \<lparr>af = AF_INET6, ip4addr = 0, ip6addr = 0x10000000000000000, prefix = 64\<rparr> 64
     \<noteq> Some xs" for xs
    using ipaddr_walk_stuck [of False "\<lparr>af = AF_INET6, ip4addr = 0, ip6addr = 0, prefix = 64\<rparr>"
     "\<lparr>af = AF_INET6, ip4addr = 0, ip6addr = 0x10000000000000000, prefix = 64\<rparr>" 64 xs]
    by auto
  then have w6: "ipaddr_walk False \<lparr>af = AF_INET6, ip4addr = 0, ip6addr = 0, prefix = 64\<rparr>
     \<lparr>af = AF_INET6, ip4addr = 0, ip6addr = 0x10000000000000000, prefix = 64\<rparr> 64 = None"
    by auto
  from s4 w4 s6 w6 show ?thesis by simp
qed

lemma uint32_gen_mask_eq: "n \<le> 32 \<Longrightarrow> uint32_gen_mask n = mask n"
  by (auto simp: uint32_gen_mask_def mask_eq_exp_minus_1)

lemma no_dash:
  assumes "CHR ''-'' \<notin> set s"
  shows "length (takeWhile (\<lambda>c. c \<noteq> CHR ''-'') s) = length s"
proof -
  from assms have "takeWhile (\<lambda>c. c \<noteq> CHR ''-'') s = s" by (auto simp: takeWhile_eq_all_conv)
  then show ?thesis by (rule arg_cong)
qed

lemma bit_bswap128:
  "bit (bswap128 x) n \<longleftrightarrow> n < 128 \<and> bit x (8 * (15 - n div 8) + n mod 8)"
  by (auto simp add: bswap128_def bit_horner_sum_bit_word_iff)

lemma bswap128_involution: "bswap128 (bswap128 x) = x"
proof (rule bit_word_eqI)
  fix n assume "n < LENGTH(128)"
  then have n: "n < 128" by simp
  define q r where "q = n div 8" and "r = n mod 8"
  have r: "r < 8" and q: "q < 16" and nqr: "n = 8 * q + r"
    using n by (simp_all add: q_def r_def less_mult_imp_div_less)
  have d: "(8 * (15 - q) + r) div 8 = 15 - q" and m: "(8 * (15 - q) + r) mod 8 = r"
    using r by simp_all
  have a: "8 * (15 - q) + r < 128" using r q by simp
  have b: "8 * (15 - (15 - q)) + r = n" using q nqr by simp
  show "bit (bswap128 (bswap128 x)) n = bit x n"
    unfolding bit_bswap128 q_def [symmetric] r_def [symmetric] d m
    using a b n by simp
qed

lemma ntohlll_htonlll: "ntohlll b (htonlll b x) = x"
  by (simp add: ntohlll_def htonlll_def bswap128_involution)

lemma uint128_gen_mask_native_eq: "n < 128 \<Longrightarrow> uint128_gen_mask_native n = mask n"
  by (simp add: uint128_gen_mask_native_def mask_eq_exp_minus_1)

lemma ip6_cidr_end_prefixes:
  assumes "0 < p" "p < 128" "p - m \<le> 64"
  shows "ip6_cidr_end True b ip m p False = Some (ip OR push_bit (128 - p) (mask (p - m)))"
  using assms
  by (simp add: ip6_cidr_end_def uint128_lshift_native_def uint128_gen_mask_native_eq
      ntohlll_htonlll or.commute)

lemma ip6_cidr_end_hosts_bigendian:
  assumes "128 - m \<le> 64"
  shows "ip6_cidr_end True True ip m 128 True = Some ((ip OR mask (128 - m)) - 1)"
  using assms
  by (simp add: ip6_cidr_end_def uint128_lshift_native_def uint128_gen_mask_native_eq
      ntohlll_def htonlll_def or.commute)

text \<open>
  Claim C6, as amended. For a text without a dash that \<^verbatim>\<open>fr_inet_pton\<close> reads as the
  address \<open>start\<close> of width \<open>W\<close> (32 or 128) with mask length \<open>m = prefix start\<close>, and a
  requested prefix length \<open>p\<close> (\<open>W\<close> when the argument is 0) with \<open>m \<le> p \<le> W\<close> and
  \<open>p - m \<le> 64\<close>, \<^verbatim>\<open>parse_ip_range\<close> returns \<open>start\<close> itself as the start address. With
  \<open>p < W\<close> (prefixes are allocated) the end address is \<open>start\<close> with the \<open>p - m\<close> bits
  between the mask and the prefix set: the base address of the last \<open>p\<close>-bit block,
  not the top address of the network. With \<open>p = W\<close> (hosts are allocated) it is \<open>start\<close>
  with all host bits set, minus one, unless \<open>m \<ge> W - 1\<close>, where it is \<open>start\<close>. This
  holds for IPv4 in every build, and for IPv6 in a build with native 128-bit integers,
  where the case \<open>p = W\<close>, \<open>m < 127\<close> is for a big-endian host.
\<close>

theorem parse_ip_range_cidr_end:
  assumes nodash: "CHR ''-'' \<notin> set ip_str"
    and pton: "fr_inet_pton ip_str False = Some start"
    and build: "af start = AF_INET \<or>
                af start = AF_INET6 \<and> have_128bit \<and>
                  (p < 128 \<or> words_bigendian \<or> 127 \<le> prefix start)"
    and p: "p = (if pfx = 0 then IPADDR_LEN (af start) else pfx)" "prefix start \<le> p"
      "p \<le> IPADDR_LEN (af start)" "p - prefix start \<le> 64"
  shows "parse_ip_range have_128bit words_bigendian fr_inet_pton fr_ipaddr_mask ip_str pfx =
         Inr (start,
           if af start = AF_INET then
             start\<lparr>ip4addr :=
               (if p = 32 then (if 31 \<le> prefix start then ip4addr start
                                else (ip4addr start OR mask (32 - prefix start)) - 1)
                else ip4addr start OR push_bit (32 - p) (mask (p - prefix start)))\<rparr>
           else
             start\<lparr>ip6addr :=
               (if p = 128 then (if 127 \<le> prefix start then ip6addr start
                                 else (ip6addr start OR mask (128 - prefix start)) - 1)
                else ip6addr start OR push_bit (128 - p) (mask (p - prefix start)))\<rparr>)"
proof -
  from build have fam: "af start = AF_INET \<or> af start = AF_INET6" by blast
  have pfx: "(if pfx = 0 then IPADDR_LEN (af start) else pfx) = p" using p(1) by simp
  have pos: "0 < p" using p(1) fam by (auto simp: IPADDR_LEN_def split: if_splits)
  have span: "\<not> 64 < p - prefix start" using p(4) by simp
  have low: "\<not> p < prefix start" using p(2) by simp
  from fam show ?thesis
  proof
    assume inet: "af start = AF_INET"
    with p(3) have p32: "p \<le> 32" by (simp add: IPADDR_LEN_def)
    have m: "uint32_gen_mask (p - prefix start) = mask (p - prefix start)"
      using p32 by (intro uint32_gen_mask_eq) simp
    from inet p32 pos m span low show ?thesis
      by (simp add: parse_ip_range_def no_dash [OF nodash] pton pfx IPADDR_LEN_def Let_def)
  next
    assume inet6: "af start = AF_INET6"
    with build have native: have_128bit
      and order: "p < 128 \<or> words_bigendian \<or> 127 \<le> prefix start" by simp_all
    from inet6 p(3) have p128: "p \<le> 128" by (simp add: IPADDR_LEN_def)
    show ?thesis
    proof (cases "p = 128")
      case False
      with p128 have "p < 128" by simp
      from ip6_cidr_end_prefixes [OF pos this p(4)] inet6 native pos p128 span low False
      show ?thesis
        by (simp add: parse_ip_range_def no_dash [OF nodash] pton pfx IPADDR_LEN_def Let_def)
    next
      case True
      show ?thesis
      proof (cases "127 \<le> prefix start")
        case True
        with \<open>p = 128\<close> inet6 span low show ?thesis
          by (simp add: parse_ip_range_def no_dash [OF nodash] pton pfx IPADDR_LEN_def Let_def)
      next
        case False
        with order True have be: words_bigendian by simp
        from p(4) True have "128 - prefix start \<le> 64" by simp
        from ip6_cidr_end_hosts_bigendian [OF this] True False inet6 native be span low
        show ?thesis
          by (simp add: parse_ip_range_def no_dash [OF nodash] pton pfx IPADDR_LEN_def Let_def)
      qed
    qed
  qed
qed

theorem parse_ip_range_cidr_end_witness:
  "parse_ip_range False False example_inet_pton example_ipaddr_mask ''10.0.0.0/24'' 32
     = Inr (\<lparr>af = AF_INET, ip4addr = 0x0A000000, ip6addr = 0, prefix = 24\<rparr>,
            \<lparr>af = AF_INET, ip4addr = 0x0A0000FE, ip6addr = 0, prefix = 24\<rparr>) \<and>
   parse_ip_range False False example_inet_pton example_ipaddr_mask ''10.0.0.0/24'' 26
     = Inr (\<lparr>af = AF_INET, ip4addr = 0x0A000000, ip6addr = 0, prefix = 24\<rparr>,
            \<lparr>af = AF_INET, ip4addr = 0x0A0000C0, ip6addr = 0, prefix = 24\<rparr>) \<and>
   parse_ip_range True False example_inet_pton example_ipaddr_mask ''2001:db8::/120'' 124
     = Inr (\<lparr>af = AF_INET6, ip4addr = 0, ip6addr = 0x20010db8000000000000000000000000,
              prefix = 120\<rparr>,
            \<lparr>af = AF_INET6, ip4addr = 0, ip6addr = 0x20010db80000000000000000000000F0,
              prefix = 120\<rparr>) \<and>
   parse_ip_range True True example_inet_pton example_ipaddr_mask ''2001:db8::/120'' 128
     = Inr (\<lparr>af = AF_INET6, ip4addr = 0, ip6addr = 0x20010db8000000000000000000000000,
              prefix = 120\<rparr>,
            \<lparr>af = AF_INET6, ip4addr = 0, ip6addr = 0x20010db80000000000000000000000FE,
              prefix = 120\<rparr>)"
  using parse_ip_range_cidr_end [of "''10.0.0.0/24''" example_inet_pton
      "\<lparr>af = AF_INET, ip4addr = 0x0A000000, ip6addr = 0, prefix = 24\<rparr>" False 32 False 32
      example_ipaddr_mask]
    parse_ip_range_cidr_end [of "''10.0.0.0/24''" example_inet_pton
      "\<lparr>af = AF_INET, ip4addr = 0x0A000000, ip6addr = 0, prefix = 24\<rparr>" False 26 False 26
      example_ipaddr_mask]
    parse_ip_range_cidr_end [of "''2001:db8::/120''" example_inet_pton
      "\<lparr>af = AF_INET6, ip4addr = 0, ip6addr = 0x20010db8000000000000000000000000,
        prefix = 120\<rparr>" True 124 False 124 example_ipaddr_mask]
    parse_ip_range_cidr_end [of "''2001:db8::/120''" example_inet_pton
      "\<lparr>af = AF_INET6, ip4addr = 0, ip6addr = 0x20010db8000000000000000000000000,
        prefix = 120\<rparr>" True 128 True 128 example_ipaddr_mask]
  by (simp add: example_inet_pton_def mask_eq_exp_minus_1 IPADDR_LEN_def)

text \<open>
  Claim C6 as stated gives \<^verbatim>\<open>10.0.0.255\<close> as the end address of
  \<^verbatim>\<open>parse("10.0.0.0/24", 24)\<close>. The function returns \<^verbatim>\<open>10.0.0.0\<close>: the network holds one
  prefix of 24 bits, and the end address is that prefix's own address.
\<close>

theorem parse_ip_range_prefix_24_counterexample:
  "parse_ip_range False False example_inet_pton example_ipaddr_mask ''10.0.0.0/24'' 24
     = Inr (\<lparr>af = AF_INET, ip4addr = 0x0A000000, ip6addr = 0, prefix = 24\<rparr>,
            \<lparr>af = AF_INET, ip4addr = 0x0A000000, ip6addr = 0, prefix = 24\<rparr>) \<and>
   (0x0A000000 :: uint32) \<noteq> 0x0A0000FF"
  by (simp add: parse_ip_range_def example_inet_pton_def IPADDR_LEN_def uint32_gen_mask_def)

text \<open>
  Two cases of the IPv6 branch that the statement above leaves aside. On a
  little-endian host the decrement for hosts is applied to the value \<^verbatim>\<open>htonlll\<close>
  returned, so it takes one from the first byte of the address where the IPv4 branch,
  which decrements before \<^verbatim>\<open>htonl\<close>, takes one from the number: the hosts of
  \<^verbatim>\<open>2001:db8::/120\<close> end at \<^verbatim>\<open>1f01:db8::ff\<close>. On two 64-bit halves the mask of
  \<^verbatim>\<open>uint128_gen_mask\<close> has one bit more than asked for: the \<^verbatim>\<open>/124\<close> prefixes of
  \<^verbatim>\<open>2001:db8::/120\<close> end at \<^verbatim>\<open>2001:db8::1f0\<close>, outside the network, in either byte order.
\<close>

lemma parse_ip_range_inet6_hosts_little_endian:
  "parse_ip_range True False example_inet_pton example_ipaddr_mask ''2001:db8::/120'' 128
   = Inr (\<lparr>af = AF_INET6, ip4addr = 0, ip6addr = 0x20010db8000000000000000000000000,
            prefix = 120\<rparr>,
          \<lparr>af = AF_INET6, ip4addr = 0, ip6addr = 0x1f010db80000000000000000000000ff,
            prefix = 120\<rparr>)"
  by (simp add: parse_ip_range_def example_inet_pton_def IPADDR_LEN_def ip6_cidr_end_def
      uint128_lshift_native_def uint128_gen_mask_native_def htonlll_def ntohlll_def
      bswap128_def upt_rec Let_def)

lemma ip6_cidr_end_halves_prefixes:
  "ip6_cidr_end False b ip m p False
   = (case uint128_gen_mask (p - m) of
        None \<Rightarrow> None
      | Some k \<Rightarrow>
          (case uint128_lshift k (128 - p) of
             None \<Rightarrow> None
           | Some p_mask \<Rightarrow> Some (u128_val (uint128_bor p_mask (u128_of ip)))))"
  by (simp add: ip6_cidr_end_def u128_val_of ntohlll_htonlll split: option.splits)

lemma parse_ip_range_inet6_two_halves:
  "parse_ip_range False b example_inet_pton example_ipaddr_mask ''2001:db8::/120'' 124
   = Inr (\<lparr>af = AF_INET6, ip4addr = 0, ip6addr = 0x20010db8000000000000000000000000,
            prefix = 120\<rparr>,
          \<lparr>af = AF_INET6, ip4addr = 0, ip6addr = 0x20010db80000000000000000000001f0,
            prefix = 120\<rparr>)"
  by (simp add: parse_ip_range_def example_inet_pton_def IPADDR_LEN_def
      ip6_cidr_end_halves_prefixes uint128_lshift_def uint128_gen_mask_def shl64_def shr64_def
      uint128_bor_def u128_of_def u128_val_def Let_def)

section \<open>Properties of LeaseScripts\<close>

text \<open>The three keys of a pool never coincide.\<close>

lemma keys_distinct [simp]:
  "device_key p d \<noteq> pool_key p" "pool_key p \<noteq> device_key p d"
  "device_key p d \<noteq> address_key p a" "address_key p a \<noteq> device_key p d"
  "address_key p a \<noteq> pool_key p" "pool_key p \<noteq> address_key p a"
  by (simp_all add: device_key_def pool_key_def address_key_def IPPOOL_POOL_KEY_def
      IPPOOL_ADDRESS_KEY_def IPPOOL_DEVICE_KEY_def)

lemmas redis_cmd_defs = redis_ZADD_NX_def redis_ZADD_XX_CH_def redis_ZREM_def redis_ZSCORE_def
  redis_HGET_def redis_HSET_def redis_DEL_def redis_SET_def

lemmas example_defs = example_added_def example_leased_def example_score_0_with_device_def
  example_index_entry_gone_def redis_empty_def

text \<open>
  Claim C4, as amended. The release script acts exactly when the address is in the index
  with a score other than 0 (the \<^verbatim>\<open>CH\<close> flag makes \<^verbatim>\<open>ZADD\<close> report changed scores only).
  It returns 0 or 1. It returns 0, and changes nothing, when the address is absent or
  its score is 0 already. Otherwise it returns 1, the score of the address becomes 0,
  the metadata of the address stays as it is, the reverse-index entry of the device
  named in the metadata (if there is one) is deleted, and every other key keeps its
  value.
\<close>

theorem lua_release_cmd_effect:
  assumes "lua_release_cmd pool addr s = (r, s')"
  shows "(r = 0 \<or> r = 1) \<and>
         (r = 1 \<longleftrightarrow> (\<exists>sc. zsets s (pool_key pool) addr = Some sc \<and> sc \<noteq> 0)) \<and>
         (r = 0 \<longrightarrow> s' = s) \<and>
         (r = 1 \<longrightarrow>
            zsets s' (pool_key pool) = (zsets s (pool_key pool))(addr \<mapsto> 0) \<and>
            hashes s' (address_key pool addr) = hashes s (address_key pool addr) \<and>
            (\<forall>k. lease_device_key pool addr s = Some k \<longrightarrow> strs s' k = None) \<and>
            (\<forall>k. lease_device_key pool addr s \<noteq> Some k \<longrightarrow>
                 strs s' k = strs s k \<and> hashes s' k = hashes s k \<and>
                 (k \<noteq> pool_key pool \<longrightarrow> zsets s' k = zsets s k)))"
proof (cases "zsets s (pool_key pool) addr")
  case None
  with assms show ?thesis
    by (simp add: lua_release_cmd_def redis_ZADD_XX_CH_def)
next
  case (Some sc)
  show ?thesis
  proof (cases "sc = 0")
    case True
    with Some assms show ?thesis
      by (simp add: lua_release_cmd_def redis_ZADD_XX_CH_def)
  next
    case False
    show ?thesis
    proof (cases "hashes s (address_key pool addr) ''device''")
      case None
      with Some False assms show ?thesis
        by (auto simp: lua_release_cmd_def redis_ZADD_XX_CH_def redis_HGET_def
            lease_device_key_def)
    next
      case (Some d)
      with \<open>zsets s (pool_key pool) addr = Some sc\<close> False assms show ?thesis
        by (auto simp: lua_release_cmd_def redis_ZADD_XX_CH_def redis_HGET_def redis_DEL_def
            lease_device_key_def)
    qed
  qed
qed

theorem lua_release_cmd_effect_witness:
  "fst (lua_release_cmd ''p'' ''10.0.0.1'' example_leased) = 1 \<and>
   zsets (snd (lua_release_cmd ''p'' ''10.0.0.1'' example_leased)) (pool_key ''p'') ''10.0.0.1''
     = Some 0 \<and>
   strs (snd (lua_release_cmd ''p'' ''10.0.0.1'' example_leased)) (device_key ''p'' ''d1'')
     = None \<and>
   hashes (snd (lua_release_cmd ''p'' ''10.0.0.1'' example_leased)) (address_key ''p'' ''10.0.0.1'')
      ''device'' = Some ''d1''"
proof -
  have z: "zsets example_leased (pool_key ''p'') ''10.0.0.1'' = Some 1700000000"
    and d: "lease_device_key ''p'' ''10.0.0.1'' example_leased = Some (device_key ''p'' ''d1'')"
    and hd: "hashes example_leased (address_key ''p'' ''10.0.0.1'') ''device'' = Some ''d1''"
    by (simp_all add: example_defs redis_cmd_defs lease_device_key_def)
  from lua_release_cmd_effect [of "''p''" "''10.0.0.1''" example_leased
      "fst (lua_release_cmd ''p'' ''10.0.0.1'' example_leased)"
      "snd (lua_release_cmd ''p'' ''10.0.0.1'' example_leased)"] z d hd
  show ?thesis by simp
qed

text \<open>
  Claim C4 as stated fails for an address that is in the index with score 0 while a
  device is still recorded for it: the script returns 0 and leaves the device's
  reverse-index entry in place.
\<close>

theorem lua_release_cmd_score_0_counterexample:
  "zsets example_score_0_with_device (pool_key ''p'') ''10.0.0.1'' = Some 0 \<and>
   hashes example_score_0_with_device (address_key ''p'' ''10.0.0.1'') ''device'' = Some ''d1'' \<and>
   fst (lua_release_cmd ''p'' ''10.0.0.1'' example_score_0_with_device) = 0 \<and>
   strs (snd (lua_release_cmd ''p'' ''10.0.0.1'' example_score_0_with_device))
     (device_key ''p'' ''d1'') = Some ''10.0.0.1''"
  by (simp add: example_defs redis_cmd_defs lua_release_cmd_def)

text \<open>
  Claim C3. The remove script is to delete the metadata of the address whether or not
  a device is recorded, and to return 1 exactly when the index entry was deleted. On
  the keyspace Add leaves (no device field) it returns before \<^verbatim>\<open>DEL\<close>: the index entry
  is removed, the reply is 1, and the metadata, with its range field, is still there.
  On a keyspace whose index entry is already gone but whose metadata names a device,
  it returns 1 although nothing was removed from the index.
\<close>

theorem lua_remove_cmd_keeps_metadata:
  "zsets example_added (pool_key ''p'') ''10.0.0.1'' = Some 0 \<and>
   fst (lua_remove_cmd ''p'' ''10.0.0.1'' example_added) = 1 \<and>
   hashes (snd (lua_remove_cmd ''p'' ''10.0.0.1'' example_added)) (address_key ''p'' ''10.0.0.1'')
     ''range'' = Some ''r1'' \<and>
   zsets example_index_entry_gone (pool_key ''p'') ''10.0.0.1'' = None \<and>
   fst (lua_remove_cmd ''p'' ''10.0.0.1'' example_index_entry_gone) = 1"
  by (simp add: example_defs redis_cmd_defs lua_remove_cmd_def Let_def)

text \<open>
  Claim C7. Both scripts are idempotent: from every keyspace, for every pool and
  address, a second invocation right after the first returns 0 and returns the
  keyspace it was given.
\<close>

theorem lua_scripts_idempotent:
  "lua_release_cmd pool addr (snd (lua_release_cmd pool addr s))
     = (0, snd (lua_release_cmd pool addr s)) \<and>
   lua_remove_cmd pool addr (snd (lua_remove_cmd pool addr s))
     = (0, snd (lua_remove_cmd pool addr s))"
proof
  show "lua_release_cmd pool addr (snd (lua_release_cmd pool addr s))
     = (0, snd (lua_release_cmd pool addr s))"
    by (auto simp: lua_release_cmd_def redis_ZADD_XX_CH_def redis_HGET_def redis_DEL_def
        split: option.splits)
  show "lua_remove_cmd pool addr (snd (lua_remove_cmd pool addr s))
     = (0, snd (lua_remove_cmd pool addr s))"
    by (auto simp: lua_remove_cmd_def redis_ZREM_def redis_HGET_def redis_DEL_def Let_def
        split: option.splits)
qed

section \<open>Properties of BatchExecutor and LeaseOperations\<close>

lemma enqueue_batch_no_more:
  "enqueue_batch n enqueue nxt a False p c = Some (a, False, p, c)"
  by (cases n) simp_all

lemma enqueue_batch_last:
  assumes "nxt a = Some (a, False)" "enqueue a = Some (k, cs)" "0 \<le> k"
  shows "enqueue_batch (Suc n) enqueue nxt a True p c = Some (a, False, p + k, c @ cs)"
  using assms by (simp add: enqueue_batch_no_more)

lemma MAX_Suc: "MAX_PIPELINED = Suc 999" by (simp add: MAX_PIPELINED_def)

lemma sprint1: "example_sprint_ip (example_host 0x0A000001) 32 = ''10.0.0.1''"
  by (simp add: example_sprint_ip_def example_host_def dec_digits.simps)

lemma example_next_at_end:
  "ipaddr_next b (example_host w) (example_host w) 32 = Some (example_host w, False)"
  by (simp add: ipaddr_next_def example_host_def)

lemma example_add_enqueue:
  "driver_add_lease_enqueue example_build ''p'' rng (example_host 0x0A000001) 32
   = Some (4, [MULTI, ZADD_NX (pool_key ''p'') 0 ''10.0.0.1'',
               HSET (address_key ''p'' ''10.0.0.1'') ''range'' rng, EXEC])"
  by (simp add: driver_add_lease_enqueue_def example_build_def sprint1
      IPPOOL_BUILD_IP_KEY_FROM_STR_def IPPOOL_ADDRESS_KEY_def is_truncated_def address_key_def
      Let_def)

lemma example_add_pipeline:
  "redis_pipeline [MULTI, ZADD_NX (pool_key ''p'') 0 ''10.0.0.1'',
               HSET (address_key ''p'' ''10.0.0.1'') ''range'' ''r1'', EXEC] None redis_empty
   = ([REDIS_REPLY_STATUS ''OK'', REDIS_REPLY_STATUS ''QUEUED'', REDIS_REPLY_STATUS ''QUEUED'',
       REDIS_REPLY_ARRAY [REDIS_REPLY_INTEGER 1, REDIS_REPLY_INTEGER 1]], example_added)"
  by (simp add: redis_command_def example_added_def redis_ZADD_NX_def redis_HSET_def redis_empty_def)

text \<open>
  Claim C1. After a redirect the next attempt is to replay the batch from the last
  acknowledged checkpoint, and the final count is to equal that of a run without
  redirects. The driver does set the cursor back to \<^verbatim>\<open>acked\<close>, but \<^verbatim>\<open>more\<close> keeps the
  value the interrupted attempt left. When that attempt reached the end of the interval
  \<^verbatim>\<open>more\<close> is false, the replay pipelines nothing, and the driver returns 0 as for a
  success. Add over the single address \<^verbatim>\<open>10.0.0.1\<close> on an empty keyspace: without a
  redirect the count is 1 and the lease is stored; with the first submission redirected
  the count is 0 and the keyspace is still empty.
\<close>

theorem driver_add_lease_redirect_on_last_batch:
  "driver_add_lease example_build 0 \<lparr>store = redis_empty, upcoming = []\<rparr>
     (example_op 0x0A000001 0x0A000001)
     = Some (0, 1, \<lparr>store = example_added, upcoming = []\<rparr>) \<and>
   driver_add_lease example_build 0 \<lparr>store = redis_empty, upcoming = [Redirected]\<rparr>
     (example_op 0x0A000001 0x0A000001)
     = Some (0, 0, \<lparr>store = redis_empty, upcoming = []\<rparr>)"
proof -
  let ?enq = "\<lambda>ipaddr. driver_add_lease_enqueue example_build ''p'' ''r1'' ipaddr 32"
  let ?nxt = "\<lambda>ipaddr. ipaddr_next False ipaddr (example_host 0x0A000001) 32"
  let ?a = "example_host 0x0A000001"
  let ?cmds = "[MULTI, ZADD_NX (pool_key ''p'') 0 ''10.0.0.1'',
               HSET (address_key ''p'' ''10.0.0.1'') ''range'' ''r1'', EXEC]"
  let ?replies = "[REDIS_REPLY_STATUS ''OK'', REDIS_REPLY_STATUS ''QUEUED'',
       REDIS_REPLY_STATUS ''QUEUED'',
       REDIS_REPLY_ARRAY [REDIS_REPLY_INTEGER 1, REDIS_REPLY_INTEGER 1]]"
  have first: "enqueue_batch MAX_PIPELINED ?enq ?nxt ?a True 0 [] = Some (?a, False, 4, ?cmds)"
    unfolding MAX_Suc
    by (subst enqueue_batch_last [where k = 4 and cs = ?cmds])
       (simp_all add: example_next_at_end example_add_enqueue)
  have retry: "enqueue_batch MAX_PIPELINED ?enq ?nxt ?a False 0 [] = Some (?a, False, 0, [])"
    by (rule enqueue_batch_no_more)
  have ok: "driver_batch ?enq ?nxt ?a True \<lparr>store = redis_empty, upcoming = []\<rparr>
            = Some (REDIS_RCODE_SUCCESS, ?a, False, ?replies, \<lparr>store = example_added, upcoming = []\<rparr>)"
    by (subst driver_batch.simps)
       (simp add: first fr_redis_pipeline_result_def example_add_pipeline is_error_reply_def
          fr_redis_cluster_state_next_def del: redis_pipeline.simps)
  have after: "driver_batch ?enq ?nxt ?a False \<lparr>store = redis_empty, upcoming = []\<rparr>
            = Some (REDIS_RCODE_SUCCESS, ?a, False, [], \<lparr>store = redis_empty, upcoming = []\<rparr>)"
    by (subst driver_batch.simps)
       (simp add: retry fr_redis_pipeline_result_def fr_redis_cluster_state_next_def)
  have redirected: "driver_batch ?enq ?nxt ?a True \<lparr>store = redis_empty, upcoming = [Redirected]\<rparr>
            = Some (REDIS_RCODE_SUCCESS, ?a, False, [], \<lparr>store = redis_empty, upcoming = []\<rparr>)"
    by (subst driver_batch.simps)
       (simp add: first fr_redis_pipeline_result_def fr_redis_cluster_state_next_def after)
  have processed: "process_replies driver_add_lease_process ?nxt ?replies 0 ?a = Some (1, ?a)"
    by (simp add: driver_add_lease_process_def example_next_at_end)
  have stop: "driver_loop ?enq (Some driver_add_lease_process) ?nxt ?a False out cl = Some (0, out, cl)"
    for out :: uint64 and cl
    by (subst driver_loop.simps) simp
  have run1: "driver_loop ?enq (Some driver_add_lease_process) ?nxt ?a True 0
               \<lparr>store = redis_empty, upcoming = []\<rparr>
              = Some (0, 1, \<lparr>store = example_added, upcoming = []\<rparr>)"
    by (subst driver_loop.simps) (simp add: ok processed stop del: process_replies.simps)
  have run2: "driver_loop ?enq (Some driver_add_lease_process) ?nxt ?a True 0
               \<lparr>store = redis_empty, upcoming = [Redirected]\<rparr>
              = Some (0, 0, \<lparr>store = redis_empty, upcoming = []\<rparr>)"
    by (subst driver_loop.simps) (simp add: redirected stop)
  show ?thesis
    using run1 run2
    by (simp add: driver_add_lease_def driver_do_lease_def example_op_def example_build_def)
qed

lemma ip_key_built:
  "IPPOOL_BUILD_IP_KEY_FROM_STR n pool ip = Key_built k \<Longrightarrow> k = address_key pool ip"
  by (auto simp: IPPOOL_BUILD_IP_KEY_FROM_STR_def address_key_def Let_def split: if_splits)

lemma show_enqueue_fits:
  assumes "IPPOOL_BUILD_IP_KEY_FROM_STR (IPPOOL_MAX_IP_KEY_SIZE build) pool
             (IPPOOL_SPRINT_IP build a pfx) = Key_built k"
  shows "driver_show_lease_enqueue build pool rng a pfx
         = Some (6, show_cmds pool (IPPOOL_SPRINT_IP build a pfx))"
  using assms ip_key_built [OF assms]
  by (simp add: driver_show_lease_enqueue_def Let_def show_cmds_def)

lemma show_pipeline_group:
  "redis_pipeline (show_cmds pool ip @ rest) None s
   = (case redis_pipeline rest None s of (rs, s1) \<Rightarrow> (show_group s pool ip @ rs, s1))"
  by (simp add: show_cmds_def show_group_def redis_command_def redis_ZSCORE_def redis_HGET_def
      split: prod.splits)

lemma show_pipeline:
  "redis_pipeline (concat (map (show_cmds pool) ips)) None s
   = (concat (map (show_group s pool) ips), s)"
  by (induction ips) (simp_all add: show_pipeline_group del: redis_pipeline.simps, simp)


lemma enqueue_batch_fixed:
  assumes enq: "\<forall>x\<in>set (batch_addrs n nxt a m). enqueue x = Some (k, cmds_of x)"
    and k: "0 \<le> k"
    and run: "enqueue_batch n enqueue nxt a m p c = Some (a', m', p', c')"
  shows "p' = p + k * int (length (batch_addrs n nxt a m)) \<and>
         c' = c @ concat (map cmds_of (batch_addrs n nxt a m)) \<and>
         (\<forall>x\<in>set (batch_addrs n nxt a m). nxt x \<noteq> None)"
  using enq run
proof (induction n arbitrary: a m p c)
  case 0
  then show ?case by simp
next
  case (Suc n)
  show ?case
  proof (cases m)
    case False
    with Suc.prems show ?thesis by simp
  next
    case True
    with Suc.prems(1) have e: "enqueue a = Some (k, cmds_of a)" by simp
    with Suc.prems(2) True k obtain a1 m1 where
      nx: "nxt a = Some (a1, m1)"
      and rest: "enqueue_batch n enqueue nxt a1 m1 (p + k) (c @ cmds_of a) = Some (a', m', p', c')"
      by (auto split: option.splits if_splits)
    from Suc.prems(1) True nx
    have "\<forall>x\<in>set (batch_addrs n nxt a1 m1). enqueue x = Some (k, cmds_of x)" by simp
    from Suc.IH [OF this rest] True nx show ?thesis by (simp add: algebra_simps)
  qed
qed

lemma show_process_rejects_status:
  "driver_show_lease_process out a (REDIS_REPLY_STATUS txt) = (-1, out)"
  by (simp add: driver_show_lease_process_def)

lemma show_process_accepts:
  "driver_show_lease_process out a
     (REDIS_REPLY_ARRAY [REDIS_REPLY_STRING str, e1, e2, e3])
   = (0, out @ [\<lparr>lease_ipaddr = a, lease_next_event = of_nat (strtoull str),
                  lease_range = string_of_reply e3, lease_device = string_of_reply e1,
                  lease_gateway = string_of_reply e2\<rparr>])"
  by (simp add: driver_show_lease_process_def)

lemma string_of_nil_or_string [simp]: "string_of_reply (nil_or_string v) = v"
  by (cases v) (simp_all add: string_of_reply_def nil_or_string_def)

lemma nil_or_string_Some [simp]: "nil_or_string (Some x) = REDIS_REPLY_STRING x"
  by (simp add: nil_or_string_def)

lemma process_show_group:
  assumes "zsets s (pool_key pool) ip = Some sc"
  shows "process_replies (recording driver_show_lease_process) nxt
           (show_group s pool ip @ rest) (calls, out) a
         = (case nxt a of
              None \<Rightarrow> None
            | Some (a1, m1) \<Rightarrow>
                process_replies (recording driver_show_lease_process) nxt rest
                  (calls @ map (Pair a) (show_group s pool ip),
                   out @ [stored_lease s pool ip a]) a1)"
  using assms
  by (simp add: show_group_def recording_def show_process_rejects_status
      show_process_accepts stored_lease_def split: option.splits)

lemma process_show_groups:
  assumes "\<forall>x\<in>set (batch_addrs n nxt a m).
             nxt x \<noteq> None \<and> zsets s (pool_key pool) (sprint x) \<noteq> None"
  shows "\<exists>cursor.
           process_replies (recording driver_show_lease_process) nxt
             (concat (map (\<lambda>x. show_group s pool (sprint x)) (batch_addrs n nxt a m)))
             (calls, out) a
           = Some ((calls @ concat (map (\<lambda>x. map (Pair x) (show_group s pool (sprint x)))
                                      (batch_addrs n nxt a m)),
                    out @ map (\<lambda>x. stored_lease s pool (sprint x) x) (batch_addrs n nxt a m)),
                   cursor)"
  using assms
proof (induction n arbitrary: a m calls out)
  case 0
  then show ?case by simp
next
  case (Suc n)
  show ?case
  proof (cases m)
    case False
    then show ?thesis by simp
  next
    case True
    with Suc.prems obtain a1 m1 sc where nx: "nxt a = Some (a1, m1)"
      and sc: "zsets s (pool_key pool) (sprint a) = Some sc" by auto
    from Suc.prems True nx
    have "\<forall>x\<in>set (batch_addrs n nxt a1 m1).
             nxt x \<noteq> None \<and> zsets s (pool_key pool) (sprint x) \<noteq> None" by simp
    from Suc.IH [OF this, of "calls @ map (Pair a) (show_group s pool (sprint a))"
        "out @ [stored_lease s pool (sprint a) a]"]
    obtain cursor where
      "process_replies (recording driver_show_lease_process) nxt
         (concat (map (\<lambda>x. show_group s pool (sprint x)) (batch_addrs n nxt a1 m1)))
         (calls @ map (Pair a) (show_group s pool (sprint a)),
          out @ [stored_lease s pool (sprint a) a]) a1
       = Some (((calls @ map (Pair a) (show_group s pool (sprint a))) @
                  concat (map (\<lambda>x. map (Pair x) (show_group s pool (sprint x)))
                              (batch_addrs n nxt a1 m1)),
                (out @ [stored_lease s pool (sprint a) a]) @
                  map (\<lambda>x. stored_lease s pool (sprint x) x) (batch_addrs n nxt a1 m1)),
               cursor)" by blast
    with True nx show ?thesis
      by (simp add: process_show_group [OF sc] del: process_replies.simps)
  qed
qed

lemma process_recording:
  "map_option (\<lambda>((calls1, out1), cursor). (out1, cursor))
     (process_replies (recording process) nxt replies (calls, out) a)
   = process_replies process nxt replies out a"
  by (induction replies arbitrary: calls out a)
     (auto simp: recording_def split: prod.splits option.splits)


lemma length_concat_show_groups:
  "length (concat (map (\<lambda>x. show_group s pool (f x)) xs)) = 6 * length xs"
  by (induction xs) (simp_all add: show_group_def)

lemma show_group_no_error:
  "takeWhile (\<lambda>r. \<not> is_error_reply r) (concat (map (\<lambda>x. show_group s pool (f x)) xs))
   = concat (map (\<lambda>x. show_group s pool (f x)) xs)"
  by (rule takeWhile_eq_all_conv [THEN iffD2])
     (auto simp: show_group_def is_error_reply_def nil_or_string_def split: option.splits)

lemma batch_addrs_no_more: "batch_addrs n nxt a False = []"
  by (cases n) simp_all

lemma sprint2: "example_sprint_ip (example_host 0x0A000002) 32 = ''10.0.0.2''"
  and sprint0: "example_sprint_ip (example_host 0x0A000000) 32 = ''10.0.0.0''"
  by (simp_all add: example_sprint_ip_def example_host_def dec_digits.simps)

lemma example_fits:
  "length ip < 200 \<Longrightarrow>
   IPPOOL_BUILD_IP_KEY_FROM_STR 256 ''p'' ip = Key_built (address_key ''p'' ip)"
  by (simp add: IPPOOL_BUILD_IP_KEY_FROM_STR_def IPPOOL_ADDRESS_KEY_def is_truncated_def
      address_key_def Let_def)

lemma example_next_step:
  "w \<noteq> e \<Longrightarrow> ipaddr_next b (example_host w) (example_host e) 32 = Some (example_host (w + 1), True)"
  by (simp add: ipaddr_next_def example_host_def)

lemma example_show_enqueue:
  "length (example_sprint_ip a 32) < 200 \<Longrightarrow>
   driver_show_lease_enqueue example_build ''p'' rng a 32
   = Some (6, show_cmds ''p'' (example_sprint_ip a 32))"
  using show_enqueue_fits [of example_build "''p''" a 32 "address_key ''p'' (example_sprint_ip a 32)" rng]
  by (simp add: example_build_def example_fits)

lemma MAX_Suc2: "MAX_PIPELINED = Suc (Suc 998)" by (simp add: MAX_PIPELINED_def)

lemma enqueue_batch_two:
  assumes "nxt a = Some (b, True)" "nxt b = Some (b, False)"
    and "enqueue a = Some (k, cs)" "enqueue b = Some (k', cs')" "0 \<le> k" "0 \<le> k'"
  shows "enqueue_batch (Suc (Suc n)) enqueue nxt a True p c
         = Some (b, False, p + k + k', (c @ cs) @ cs')"
  using assms by (simp add: enqueue_batch_no_more)

lemma batch_addrs_two:
  assumes "nxt a = Some (b, True)" "nxt b = Some (b, False)"
  shows "batch_addrs (Suc (Suc n)) nxt a True = [a, b]"
  using assms by (simp add: batch_addrs_no_more)

lemma example_two_present:
  "zsets example_two_leases (pool_key ''p'') ''10.0.0.1'' = Some 1700000000"
  "zsets example_two_leases (pool_key ''p'') ''10.0.0.2'' = Some 0"
  by (simp_all add: example_two_leases_def example_defs redis_cmd_defs)

lemma example_two_stored:
  "stored_lease example_two_leases ''p'' ''10.0.0.1'' a
   = \<lparr>lease_ipaddr = a, lease_next_event = 1700000000, lease_range = Some ''r1'',
      lease_device = Some ''d1'', lease_gateway = None\<rparr>"
  "stored_lease example_two_leases ''p'' ''10.0.0.2'' a
   = \<lparr>lease_ipaddr = a, lease_next_event = 0, lease_range = Some ''r1'',
      lease_device = None, lease_gateway = None\<rparr>"
  by (simp_all add: stored_lease_def example_two_leases_def example_defs redis_cmd_defs
      address_key_def score_string_def dec_digits.simps strtoull_def digit_of_def isspace_def
      Let_def)

lemma example_leased_store:
  "zsets example_leased (pool_key ''p'') ''10.0.0.0'' = None"
  "zsets example_leased (pool_key ''p'') ''10.0.0.1'' = Some 1700000000"
  "hashes example_leased (address_key ''p'' ''10.0.0.0'') = Map.empty"
  "hashes example_leased (address_key ''p'' ''10.0.0.1'') ''device'' = Some ''d1''"
  "hashes example_leased (address_key ''p'' ''10.0.0.1'') ''gateway'' = None"
  "hashes example_leased (address_key ''p'' ''10.0.0.1'') ''range'' = Some ''r1''"
  by (simp_all add: example_defs redis_cmd_defs fun_eq_iff address_key_def)

lemma example_score_string: "score_string 1700000000 = ''1700000000''"
  by (simp add: score_string_def dec_digits.simps)

lemma example_strtoull: "strtoull ''1700000000'' = 1700000000"
  by (simp add: strtoull_def digit_of_def isspace_def Let_def)

lemma example_show_group_absent:
  "show_group example_leased ''p'' ''10.0.0.0''
   = [REDIS_REPLY_STATUS ''OK'', REDIS_REPLY_STATUS ''QUEUED'', REDIS_REPLY_STATUS ''QUEUED'',
      REDIS_REPLY_STATUS ''QUEUED'', REDIS_REPLY_STATUS ''QUEUED'',
      REDIS_REPLY_ARRAY [REDIS_REPLY_NIL, REDIS_REPLY_NIL, REDIS_REPLY_NIL, REDIS_REPLY_NIL]]"
  by (simp add: show_group_def example_leased_store nil_or_string_def)

lemma example_show_group_leased:
  "show_group example_leased ''p'' ''10.0.0.1''
   = [REDIS_REPLY_STATUS ''OK'', REDIS_REPLY_STATUS ''QUEUED'', REDIS_REPLY_STATUS ''QUEUED'',
      REDIS_REPLY_STATUS ''QUEUED'', REDIS_REPLY_STATUS ''QUEUED'',
      REDIS_REPLY_ARRAY [REDIS_REPLY_STRING ''1700000000'', REDIS_REPLY_STRING ''d1'',
                         REDIS_REPLY_NIL, REDIS_REPLY_STRING ''r1'']]"
  by (simp add: show_group_def example_leased_store nil_or_string_def example_score_string)

lemma pipeline_result_all:
  assumes "redis_pipeline cmds None s = (rs, s)"
    and "takeWhile (\<lambda>r. \<not> is_error_reply r) rs = rs"
    and "length rs = nat n" and "0 < n"
  shows "fr_redis_pipeline_result \<lparr>store = s, upcoming = []\<rparr> cmds n
         = (rs, REDIS_RCODE_SUCCESS, \<lparr>store = s, upcoming = []\<rparr>)"
  using assms
  by (simp add: fr_redis_pipeline_result_def Let_def
      del: redis_pipeline.simps takeWhile_eq_all_conv)

lemma example_show_result_one:
  "fr_redis_pipeline_result \<lparr>store = s, upcoming = []\<rparr> (show_cmds ''p'' ip) 6
   = (show_group s ''p'' ip, REDIS_RCODE_SUCCESS, \<lparr>store = s, upcoming = []\<rparr>)"
  using show_pipeline [of "''p''" "[ip]" s] show_group_no_error [of s "''p''" "\<lambda>x. x" "[ip]"]
        length_concat_show_groups [of s "''p''" "\<lambda>x. x" "[ip]"]
  by (intro pipeline_result_all) (simp_all del: redis_pipeline.simps)

lemma example_show_result_two:
  "fr_redis_pipeline_result \<lparr>store = s, upcoming = []\<rparr> (show_cmds ''p'' ip @ show_cmds ''p'' ip') 12
   = (show_group s ''p'' ip @ show_group s ''p'' ip', REDIS_RCODE_SUCCESS,
      \<lparr>store = s, upcoming = []\<rparr>)"
  using show_pipeline [of "''p''" "[ip, ip']" s]
        show_group_no_error [of s "''p''" "\<lambda>x. x" "[ip, ip']"]
        length_concat_show_groups [of s "''p''" "\<lambda>x. x" "[ip, ip']"]
  by (intro pipeline_result_all) (simp_all del: redis_pipeline.simps)

text \<open>
  Claim C2, as amended. The result callback is invoked once for every wire reply of the
  batch, in the order of the replies, and the replay cursor starts at the batch's
  checkpoint and moves on after each reply the callback takes (returns 0 for). For a
  Show batch that the store executed, whose addresses all have an index entry and keys
  that fit the key buffer: the replies are the six replies of each address in address
  order; each of them reaches the callback together with the address it belongs to;
  and the result is one lease record for each address, in address order, carrying that
  address and what the store holds for it.
\<close>

theorem show_batch_lockstep:
  assumes batch:
      "enqueue_batch MAX_PIPELINED (\<lambda>a. driver_show_lease_enqueue build pool rng a pfx) nxt
         acked True 0 [] = Some (ipaddr, more1, pipelined, cmds)"
    and exec: "fr_redis_pipeline_result cl cmds pipelined = (replies, REDIS_RCODE_SUCCESS, cl1)"
    and addrs: "addrs = batch_addrs MAX_PIPELINED nxt acked True"
    and fit: "\<forall>a\<in>set addrs. \<exists>k.
                IPPOOL_BUILD_IP_KEY_FROM_STR (IPPOOL_MAX_IP_KEY_SIZE build) pool
                  (IPPOOL_SPRINT_IP build a pfx) = Key_built k"
    and present: "\<forall>a\<in>set addrs.
                zsets (store cl) (pool_key pool) (IPPOOL_SPRINT_IP build a pfx) \<noteq> None"
  shows "\<exists>cursor.
           replies = concat (map (\<lambda>a. show_group (store cl) pool (IPPOOL_SPRINT_IP build a pfx))
                              addrs) \<and>
           process_replies (recording driver_show_lease_process) nxt replies ([], out) acked
             = Some ((concat (map (\<lambda>a. map (Pair a)
                         (show_group (store cl) pool (IPPOOL_SPRINT_IP build a pfx))) addrs),
                      out @ map (\<lambda>a. stored_lease (store cl) pool (IPPOOL_SPRINT_IP build a pfx) a)
                             addrs),
                     cursor) \<and>
           process_replies driver_show_lease_process nxt replies out acked
             = Some (out @ map (\<lambda>a. stored_lease (store cl) pool (IPPOOL_SPRINT_IP build a pfx) a)
                            addrs,
                     cursor)"
proof -
  let ?sp = "\<lambda>a. IPPOOL_SPRINT_IP build a pfx"
  let ?groups = "concat (map (\<lambda>a. show_group (store cl) pool (?sp a)) addrs)"
  have enq: "\<forall>x\<in>set (batch_addrs MAX_PIPELINED nxt acked True).
               driver_show_lease_enqueue build pool rng x pfx
               = Some (6, show_cmds pool (?sp x))"
    using fit unfolding addrs by (auto intro: show_enqueue_fits)
  from enqueue_batch_fixed [where enqueue = "\<lambda>a. driver_show_lease_enqueue build pool rng a pfx"
      and cmds_of = "\<lambda>x. show_cmds pool (?sp x)", OF enq _ batch]
  have pl: "pipelined = 6 * int (length addrs)"
    and cmds: "cmds = concat (map (\<lambda>x. show_cmds pool (?sp x)) addrs)"
    and defined: "\<forall>x\<in>set addrs. nxt x \<noteq> None"
    by (simp_all add: addrs)
  have run: "redis_pipeline cmds None (store cl) = (?groups, store cl)"
    using show_pipeline [of pool "map ?sp addrs" "store cl"]
    by (simp add: cmds comp_def)
  have rep: "replies = ?groups"
  proof (cases "addrs = []")
    case True
    with exec pl show ?thesis by (simp add: fr_redis_pipeline_result_def)
  next
    case False
    then have pos: "\<not> pipelined \<le> 0" using pl by simp
    have tk: "take (nat pipelined) ?groups = ?groups"
      by (simp add: pl length_concat_show_groups)
    from exec pos show ?thesis
      by (auto simp: fr_redis_pipeline_result_def run tk show_group_no_error Let_def
          split: list.splits submission.splits)
  qed
  from process_show_groups [where n = MAX_PIPELINED and nxt = nxt and a = acked and m = True
      and s = "store cl" and pool = pool and sprint = ?sp and calls = "[]" and out = out]
    defined present
  obtain cursor where
    rec: "process_replies (recording driver_show_lease_process) nxt ?groups ([], out) acked
          = Some ((concat (map (\<lambda>a. map (Pair a) (show_group (store cl) pool (?sp a))) addrs),
                   out @ map (\<lambda>a. stored_lease (store cl) pool (?sp a) a) addrs), cursor)"
    unfolding addrs by auto
  from process_recording [of driver_show_lease_process nxt ?groups "[]" out acked] rec
  have plain: "process_replies driver_show_lease_process nxt ?groups out acked
          = Some (out @ map (\<lambda>a. stored_lease (store cl) pool (?sp a) a) addrs, cursor)"
    by simp
  from rep rec plain show ?thesis by blast
qed

theorem show_batch_lockstep_witness:
  "map_option fst
     (process_replies driver_show_lease_process
        (\<lambda>a. ipaddr_next False a (example_host 0x0A000002) 32)
        (fst (fr_redis_pipeline_result \<lparr>store = example_two_leases, upcoming = []\<rparr>
                (show_cmds ''p'' ''10.0.0.1'' @ show_cmds ''p'' ''10.0.0.2'') 12))
        [] (example_host 0x0A000001))
   = Some [\<lparr>lease_ipaddr = example_host 0x0A000001, lease_next_event = 1700000000,
            lease_range = Some ''r1'', lease_device = Some ''d1'', lease_gateway = None\<rparr>,
           \<lparr>lease_ipaddr = example_host 0x0A000002, lease_next_event = 0,
            lease_range = Some ''r1'', lease_device = None, lease_gateway = None\<rparr>]"
proof -
  let ?nxt = "\<lambda>a. ipaddr_next False a (example_host 0x0A000002) 32"
  let ?enq = "\<lambda>a. driver_show_lease_enqueue example_build ''p'' ''r1'' a 32"
  let ?cl = "\<lparr>store = example_two_leases, upcoming = []\<rparr>"
  let ?cmds = "show_cmds ''p'' ''10.0.0.1'' @ show_cmds ''p'' ''10.0.0.2''"
  let ?a1 = "example_host 0x0A000001" and ?a2 = "example_host 0x0A000002"
  have n1: "?nxt ?a1 = Some (?a2, True)"
    using example_next_step [of "0x0A000001" "0x0A000002" False] by simp
  have n2: "?nxt ?a2 = Some (?a2, False)" by (rule example_next_at_end)
  have e1: "?enq ?a1 = Some (6, show_cmds ''p'' ''10.0.0.1'')"
    using example_show_enqueue [of ?a1 "''r1''"] by (simp add: sprint1)
  have e2: "?enq ?a2 = Some (6, show_cmds ''p'' ''10.0.0.2'')"
    using example_show_enqueue [of ?a2 "''r1''"] by (simp add: sprint2)
  have batch: "enqueue_batch MAX_PIPELINED ?enq ?nxt ?a1 True 0 [] = Some (?a2, False, 12, ?cmds)"
    unfolding MAX_Suc2
    by (subst enqueue_batch_two [where b = ?a2 and k = 6 and k' = 6
          and cs = "show_cmds ''p'' ''10.0.0.1''" and cs' = "show_cmds ''p'' ''10.0.0.2''"])
       (simp_all only: n1 n2 e1 e2, simp_all)
  have addrs: "[?a1, ?a2] = batch_addrs MAX_PIPELINED ?nxt ?a1 True"
    unfolding MAX_Suc2 by (rule batch_addrs_two [OF n1 n2, symmetric])
  have status: "fst (snd (fr_redis_pipeline_result ?cl ?cmds 12)) = REDIS_RCODE_SUCCESS"
    by (simp add: fr_redis_pipeline_result_def show_cmds_def redis_command_def is_error_reply_def
        nil_or_string_def split: option.splits)
  then have exec: "fr_redis_pipeline_result ?cl ?cmds 12
      = (fst (fr_redis_pipeline_result ?cl ?cmds 12), REDIS_RCODE_SUCCESS,
         snd (snd (fr_redis_pipeline_result ?cl ?cmds 12)))"
    by (metis prod.collapse)
  have fit: "\<forall>a\<in>set [?a1, ?a2]. \<exists>k.
                IPPOOL_BUILD_IP_KEY_FROM_STR (IPPOOL_MAX_IP_KEY_SIZE example_build) ''p''
                  (IPPOOL_SPRINT_IP example_build a 32) = Key_built k"
    by (simp add: example_build_def sprint1 sprint2 example_fits)
  have present: "\<forall>a\<in>set [?a1, ?a2].
                zsets (store ?cl) (pool_key ''p'') (IPPOOL_SPRINT_IP example_build a 32) \<noteq> None"
    by (simp add: example_build_def sprint1 sprint2 example_two_present)
  from show_batch_lockstep [OF batch exec addrs fit present, of "[]"]
  show ?thesis
    by (auto simp: example_build_def sprint1 sprint2 example_two_stored
        simp del: process_replies.simps)
qed

text \<open>
  Claim C2 as stated has the callback invoked once for each address of the batch. Show
  over the single address \<^verbatim>\<open>10.0.0.1\<close>, leased to a device: the callback is invoked six
  times, once for each wire reply of the address's transaction, and takes the last.
  The claim also has every lease record carry the address its reply belongs to. Show over
  \<^verbatim>\<open>10.0.0.0\<close> to \<^verbatim>\<open>10.0.0.1\<close> on the same keyspace, where \<^verbatim>\<open>10.0.0.0\<close> is not in the
  pool: the one lease record holds what the store has for \<^verbatim>\<open>10.0.0.1\<close> under the
  address \<^verbatim>\<open>10.0.0.0\<close>.
\<close>

theorem show_callback_counterexample:
  "driver_do_lease example_build ([], []) \<lparr>store = example_leased, upcoming = []\<rparr>
     (example_op 0x0A000001 0x0A000001) driver_show_lease_enqueue
     (Some (recording driver_show_lease_process))
   = Some (0,
       (map (Pair (example_host 0x0A000001))
          [REDIS_REPLY_STATUS ''OK'', REDIS_REPLY_STATUS ''QUEUED'', REDIS_REPLY_STATUS ''QUEUED'',
           REDIS_REPLY_STATUS ''QUEUED'', REDIS_REPLY_STATUS ''QUEUED'',
           REDIS_REPLY_ARRAY [REDIS_REPLY_STRING ''1700000000'', REDIS_REPLY_STRING ''d1'',
                              REDIS_REPLY_NIL, REDIS_REPLY_STRING ''r1'']],
        [\<lparr>lease_ipaddr = example_host 0x0A000001, lease_next_event = 1700000000,
          lease_range = Some ''r1'', lease_device = Some ''d1'', lease_gateway = None\<rparr>]),
       \<lparr>store = example_leased, upcoming = []\<rparr>) \<and>
   driver_show_lease example_build [] \<lparr>store = example_leased, upcoming = []\<rparr>
     (example_op 0x0A000000 0x0A000001)
   = Some (0,
       [\<lparr>lease_ipaddr = example_host 0x0A000000, lease_next_event = 1700000000,
         lease_range = Some ''r1'', lease_device = Some ''d1'', lease_gateway = None\<rparr>],
       \<lparr>store = example_leased, upcoming = []\<rparr>)"
proof -
  let ?enq = "\<lambda>a. driver_show_lease_enqueue example_build ''p'' ''r1'' a 32"
  let ?one = "\<lambda>a. ipaddr_next False a (example_host 0x0A000001) 32"
  let ?a0 = "example_host 0x0A000000" and ?a1 = "example_host 0x0A000001"
  let ?cl = "\<lparr>store = example_leased, upcoming = []\<rparr>"
  let ?g0 = "show_group example_leased ''p'' ''10.0.0.0''"
  let ?g1 = "show_group example_leased ''p'' ''10.0.0.1''"
  let ?rec = "recording driver_show_lease_process"
  let ?lease = "\<lambda>a. \<lparr>lease_ipaddr = a, lease_next_event = 1700000000,
          lease_range = Some ''r1'', lease_device = Some ''d1'', lease_gateway = None\<rparr>"
  have n0: "?one ?a0 = Some (?a1, True)"
    using example_next_step [of "0x0A000000" "0x0A000001" False] by simp
  have n1: "?one ?a1 = Some (?a1, False)" by (rule example_next_at_end)
  have e0: "?enq ?a0 = Some (6, show_cmds ''p'' ''10.0.0.0'')"
    using example_show_enqueue [of ?a0 "''r1''"] by (simp add: sprint0)
  have e1: "?enq ?a1 = Some (6, show_cmds ''p'' ''10.0.0.1'')"
    using example_show_enqueue [of ?a1 "''r1''"] by (simp add: sprint1)
  have single: "enqueue_batch MAX_PIPELINED ?enq ?one ?a1 True 0 []
                = Some (?a1, False, 6, show_cmds ''p'' ''10.0.0.1'')"
    unfolding MAX_Suc
    by (subst enqueue_batch_last [where k = 6 and cs = "show_cmds ''p'' ''10.0.0.1''"])
       (simp_all add: n1 e1)
  have pair: "enqueue_batch MAX_PIPELINED ?enq ?one ?a0 True 0 []
              = Some (?a1, False, 12, show_cmds ''p'' ''10.0.0.0'' @ show_cmds ''p'' ''10.0.0.1'')"
    unfolding MAX_Suc2
    by (subst enqueue_batch_two [where b = ?a1 and k = 6 and k' = 6
          and cs = "show_cmds ''p'' ''10.0.0.0''" and cs' = "show_cmds ''p'' ''10.0.0.1''"])
       (simp_all only: n0 n1 e0 e1, simp_all)
  have batch1: "driver_batch ?enq ?one ?a1 True ?cl
                = Some (REDIS_RCODE_SUCCESS, ?a1, False, ?g1, ?cl)"
    by (subst driver_batch.simps)
       (simp add: single example_show_result_one fr_redis_cluster_state_next_def)
  have batch2: "driver_batch ?enq ?one ?a0 True ?cl
                = Some (REDIS_RCODE_SUCCESS, ?a1, False, ?g0 @ ?g1, ?cl)"
    by (subst driver_batch.simps)
       (simp add: pair example_show_result_two fr_redis_cluster_state_next_def)
  have calls: "process_replies ?rec ?one ?g1 ([], []) ?a1
               = Some ((map (Pair ?a1) ?g1, [?lease ?a1]), ?a1)"
    unfolding example_show_group_leased
    by (simp add: recording_def driver_show_lease_process_def n1 example_strtoull
        string_of_reply_def)
  have leases: "process_replies driver_show_lease_process ?one (?g0 @ ?g1) [] ?a0
                = Some ([?lease ?a0], ?a1)"
    unfolding example_show_group_leased example_show_group_absent
    by (simp add: driver_show_lease_process_def n0 example_strtoull string_of_reply_def)
  have stop: "driver_loop ?enq process ?one a False out cl = Some (0, out, cl)"
    for process :: "('o \<Rightarrow> fr_ipaddr \<Rightarrow> reply \<Rightarrow> int \<times> 'o) option" and a and out :: 'o and cl
    by (subst driver_loop.simps) simp
  have run1: "driver_loop ?enq (Some ?rec) ?one ?a1 True ([], []) ?cl
              = Some (0, (map (Pair ?a1) ?g1, [?lease ?a1]), ?cl)"
    by (subst driver_loop.simps) (simp add: batch1 calls stop del: process_replies.simps)
  have run2: "driver_loop ?enq (Some driver_show_lease_process) ?one ?a0 True [] ?cl
              = Some (0, [?lease ?a0], ?cl)"
    by (subst driver_loop.simps) (simp add: batch2 leases stop del: process_replies.simps)
  show ?thesis
    using run1 run2
    by (simp add: driver_show_lease_def driver_do_lease_def example_op_def example_build_def
        example_show_group_leased)
qed

lemma walk_walks:
  "ipaddr_walk b a e p = Some xs \<Longrightarrow> walks (\<lambda>x. ipaddr_next b x e p) a xs"
proof (induction xs arbitrary: a)
  case Nil
  then show ?case
    by (subst (asm) ipaddr_walk.simps) (auto split: option.splits if_splits simp: bind_eq_Some_conv)
next
  case (Cons x xs)
  from Cons.prems show ?case
    by (subst (asm) ipaddr_walk.simps)
       (auto split: option.splits if_splits simp: bind_eq_Some_conv intro: Cons.IH)
qed

lemma retagged_zsets [simp]: "zsets (retagged pool rng ips s) = zsets s"
  and retagged_strs [simp]: "strs (retagged pool rng ips s) = strs s"
  by (simp_all add: retagged_def)

lemma retagged_append:
  "retagged pool rng ys (retagged pool rng xs s) = retagged pool rng (xs @ ys) s"
  by (rule redis.equality) (auto simp: retagged_def fun_eq_iff)

lemma retagged_HSET:
  "snd (redis_HSET (address_key pool ip) ''range'' rng s) = retagged pool rng [ip] s"
  by (rule redis.equality) (auto simp: retagged_def redis_HSET_def fun_eq_iff)

lemma add_pipeline_group:
  assumes "zsets s (pool_key pool) ip = Some sc"
  shows "redis_pipeline (add_cmds pool rng ip @ rest) None s
         = (case redis_pipeline rest None (retagged pool rng [ip] s) of
              (rs, s1) \<Rightarrow> (add_group (fst (redis_HSET (address_key pool ip) ''range'' rng s)) @ rs, s1))"
proof -
  obtain n s' where h: "redis_HSET (address_key pool ip) ''range'' rng s = (n, s')"
    by (cases "redis_HSET (address_key pool ip) ''range'' rng s")
  with retagged_HSET [of pool ip rng s] have "s' = retagged pool rng [ip] s" by simp
  with assms h show ?thesis
    by (simp add: add_cmds_def add_group_def redis_command_def redis_ZADD_NX_def
        split: prod.splits)
qed

lemma add_pipeline:
  assumes "\<forall>ip\<in>set ips. zsets s (pool_key pool) ip \<noteq> None"
  shows "\<exists>ns. length ns = length ips \<and>
           redis_pipeline (concat (map (add_cmds pool rng) ips)) None s
           = (concat (map add_group ns), retagged pool rng ips s)"
  using assms
proof (induction ips arbitrary: s)
  case Nil
  show ?case by (simp add: retagged_def)
next
  case (Cons ip ips)
  then obtain sc where sc: "zsets s (pool_key pool) ip = Some sc" by auto
  from Cons.prems have "\<forall>x\<in>set ips. zsets (retagged pool rng [ip] s) (pool_key pool) x \<noteq> None"
    by simp
  from Cons.IH [OF this] obtain ns where ns: "length ns = length ips"
    "redis_pipeline (concat (map (add_cmds pool rng) ips)) None (retagged pool rng [ip] s)
     = (concat (map add_group ns), retagged pool rng ips (retagged pool rng [ip] s))" by blast
  let ?n = "fst (redis_HSET (address_key pool ip) ''range'' rng s)"
  have "redis_pipeline (concat (map (add_cmds pool rng) (ip # ips))) None s
        = (concat (map add_group (?n # ns)), retagged pool rng (ip # ips) s)"
    by (simp add: add_pipeline_group [OF sc] ns(2) retagged_append del: redis_pipeline.simps)
  with ns(1) show ?case by (intro exI [of _ "?n # ns"]) simp
qed

lemma add_process_group:
  "process_replies driver_add_lease_process nxt (add_group n @ rest) out a
   = (case nxt a of None \<Rightarrow> None
      | Some (a1, m) \<Rightarrow> process_replies driver_add_lease_process nxt rest out a1)"
  by (simp add: add_group_def driver_add_lease_process_def split: option.splits)

lemma add_process_groups:
  assumes "walks nxt a xs" "length ns \<le> length xs"
  shows "\<exists>cursor. process_replies driver_add_lease_process nxt (concat (map add_group ns)) out a
                   = Some (out, cursor)"
  using assms
proof (induction ns arbitrary: a xs)
  case Nil
  then show ?case by simp
next
  case (Cons n ns)
  then obtain ys where xs: "xs = a # ys" by (cases xs) auto
  with Cons.prems obtain a1 m where nx: "nxt a = Some (a1, m)" by (auto split: option.splits)
  show ?case
  proof (cases ns)
    case Nil
    with nx add_process_group [of nxt n "[]" out a] show ?thesis by simp
  next
    case (Cons n' ns')
    with Cons.prems xs nx have "walks nxt a1 ys" "length ns \<le> length ys"
      by (auto split: if_splits)
    from Cons.IH [OF this] nx show ?thesis
      by (simp add: add_process_group del: process_replies.simps)
  qed
qed

lemma enqueue_batch_walk:
  assumes "walks nxt a xs" "\<forall>x\<in>set xs. enqueue x = Some (k, cmds_of x)" "0 \<le> k"
  shows "\<exists>ip. enqueue_batch n enqueue nxt a True p c
              = Some (if length xs \<le> n then ip else xs ! n, \<not> length xs \<le> n,
                      p + k * int (min n (length xs)), c @ concat (map cmds_of (take n xs))) \<and>
              (n < length xs \<longrightarrow> walks nxt (xs ! n) (drop n xs))"
  using assms(1,2)
proof (induction n arbitrary: a xs p c)
  case 0
  then show ?case by (cases xs) auto
next
  case (Suc n)
  then obtain ys where xs: "xs = a # ys" by (cases xs) auto
  with Suc.prems obtain a1 m where nx: "nxt a = Some (a1, m)" by (auto split: option.splits)
  from Suc.prems xs have e: "enqueue a = Some (k, cmds_of a)" by simp
  show ?case
  proof (cases m)
    case False
    with Suc.prems xs nx have "ys = []" by simp
    with xs nx e False assms(3) show ?thesis by (simp add: enqueue_batch_no_more)
  next
    case True
    with Suc.prems xs nx have w: "walks nxt a1 ys" and en: "\<forall>x\<in>set ys. enqueue x = Some (k, cmds_of x)"
      by simp_all
    from Suc.IH [OF w en, of "p + k" "c @ cmds_of a"] xs nx e True assms(3) show ?thesis
      by (auto simp: algebra_simps)
  qed
qed


lemma add_group_no_error:
  "takeWhile (\<lambda>r. \<not> is_error_reply r) (concat (map add_group ns)) = concat (map add_group ns)"
  by (rule takeWhile_eq_all_conv [THEN iffD2]) (auto simp: add_group_def is_error_reply_def)

lemma length_concat_add_groups: "length (concat (map add_group ns)) = 4 * length ns"
  by (induction ns) (simp_all add: add_group_def)

lemma pipeline_result_executed:
  assumes "\<forall>u\<in>set (upcoming cl). u = Executed"
    and "redis_pipeline cmds None (store cl) = (rs, s1)"
    and "takeWhile (\<lambda>r. \<not> is_error_reply r) rs = rs"
    and "length rs = nat n" and "0 < n"
  shows "fr_redis_pipeline_result cl cmds n
         = (rs, REDIS_RCODE_SUCCESS, cl\<lparr>store := s1, upcoming := tl (upcoming cl)\<rparr>)"
  using assms
  by (cases "upcoming cl")
     (simp_all add: fr_redis_pipeline_result_def Let_def
        del: redis_pipeline.simps takeWhile_eq_all_conv)

lemma add_enqueue_fits:
  assumes "IPPOOL_BUILD_IP_KEY_FROM_STR (IPPOOL_MAX_IP_KEY_SIZE build) pool
             (IPPOOL_SPRINT_IP build a pfx) = Key_built k"
  shows "driver_add_lease_enqueue build pool rng a pfx
         = Some (4, add_cmds pool rng (IPPOOL_SPRINT_IP build a pfx))"
  using assms ip_key_built [OF assms]
  by (simp add: driver_add_lease_enqueue_def Let_def add_cmds_def)

lemma add_loop:
  assumes "walks nxt a xs"
    and "\<forall>x\<in>set xs. enqueue x = Some (4, add_cmds pool rng (sprint x))"
    and "\<forall>x\<in>set xs. zsets (store cl) (pool_key pool) (sprint x) \<noteq> None"
    and "\<forall>u\<in>set (upcoming cl). u = Executed"
  shows "\<exists>cl'. driver_loop enqueue (Some driver_add_lease_process) nxt a True out cl
                 = Some (0, out, cl') \<and>
               store cl' = retagged pool rng (map sprint xs) (store cl)"
  using assms
proof (induction "length xs" arbitrary: xs a cl rule: less_induct)
  case less
  let ?n = MAX_PIPELINED
  let ?ys = "take ?n xs"
  let ?cmds = "concat (map (\<lambda>x. add_cmds pool rng (sprint x)) ?ys)"
  let ?s1 = "retagged pool rng (map sprint ?ys) (store cl)"
  let ?cl1 = "cl\<lparr>store := ?s1, upcoming := tl (upcoming cl)\<rparr>"
  from less.prems(1) have ne: "xs \<noteq> []" by (cases xs) auto
  have pos: "0 < min ?n (length xs)" using ne by (simp add: MAX_PIPELINED_def)
  from enqueue_batch_walk [OF less.prems(1,2), of ?n 0 "[]"]
  obtain ip where
    batch: "enqueue_batch ?n enqueue nxt a True 0 []
            = Some (if length xs \<le> ?n then ip else xs ! ?n, \<not> length xs \<le> ?n,
                    4 * int (min ?n (length xs)), ?cmds)"
    and rest: "?n < length xs \<longrightarrow> walks nxt (xs ! ?n) (drop ?n xs)" by auto
  have "\<forall>ip\<in>set (map sprint ?ys). zsets (store cl) (pool_key pool) ip \<noteq> None"
    using less.prems(3) by (auto dest: in_set_takeD)
  from add_pipeline [OF this, of rng] obtain ns where
    ns: "length ns = length ?ys"
    and run: "redis_pipeline ?cmds None (store cl) = (concat (map add_group ns), ?s1)"
    by (auto simp: comp_def)
  have len: "length (concat (map add_group ns)) = nat (4 * int (min ?n (length xs)))"
    by (simp add: length_concat_add_groups ns)
  have res: "fr_redis_pipeline_result cl ?cmds (4 * int (min ?n (length xs)))
             = (concat (map add_group ns), REDIS_RCODE_SUCCESS, ?cl1)"
    using pos by (intro pipeline_result_executed less.prems(4) run add_group_no_error len) simp
  have db: "driver_batch enqueue nxt a True cl
            = Some (REDIS_RCODE_SUCCESS, if length xs \<le> ?n then ip else xs ! ?n,
                    \<not> length xs \<le> ?n, concat (map add_group ns), ?cl1)"
    by (subst driver_batch.simps) (simp add: batch res fr_redis_cluster_state_next_def)
  from add_process_groups [OF less.prems(1), of ns out] ns obtain cursor where
    pr: "process_replies driver_add_lease_process nxt (concat (map add_group ns)) out a
         = Some (out, cursor)" by auto
  show ?case
  proof (cases "length xs \<le> ?n")
    case True
    have "driver_loop enqueue (Some driver_add_lease_process) nxt a True out cl
          = Some (0, out, ?cl1)"
      by (subst driver_loop.simps, simp add: db pr True del: process_replies.simps)
         (subst driver_loop.simps, simp)
    with True show ?thesis by simp
  next
    case False
    then have shorter: "length (drop ?n xs) < length xs" using ne by (simp add: MAX_PIPELINED_def)
    from False rest have w: "walks nxt (xs ! ?n) (drop ?n xs)" by simp
    have e: "\<forall>x\<in>set (drop ?n xs). enqueue x = Some (4, add_cmds pool rng (sprint x))"
      using less.prems(2) by (auto dest: in_set_dropD)
    have z: "\<forall>x\<in>set (drop ?n xs). zsets (store ?cl1) (pool_key pool) (sprint x) \<noteq> None"
      using less.prems(3) by (auto dest: in_set_dropD)
    have u: "\<forall>u\<in>set (upcoming ?cl1). u = Executed"
      using less.prems(4) by (cases "upcoming cl") simp_all
    from less.hyps [OF shorter w e z u] obtain cl' where
      loop: "driver_loop enqueue (Some driver_add_lease_process) nxt (xs ! ?n) True out ?cl1
             = Some (0, out, cl')"
      and st: "store cl' = retagged pool rng (map sprint (drop ?n xs)) (store ?cl1)" by blast
    have "driver_loop enqueue (Some driver_add_lease_process) nxt a True out cl
          = Some (0, out, cl')"
      by (subst driver_loop.simps) (simp add: db pr False loop del: process_replies.simps)
    moreover have "store cl' = retagged pool rng (map sprint xs) (store cl)"
      using st by (simp add: retagged_append flip: map_append)
    ultimately show ?thesis by blast
  qed
qed

lemma example_two_ranges:
  "hashes example_two_leases (address_key ''p'' ''10.0.0.1'') ''range'' = Some ''r1''"
  "hashes example_two_leases (address_key ''p'' ''10.0.0.2'') ''range'' = Some ''r1''"
  "hashes example_two_leases (address_key ''p'' ''10.0.0.1'') ''device'' = Some ''d1''"
  by (simp_all add: example_two_leases_def example_defs redis_cmd_defs address_key_def)

text \<open>
  Claim C10. Add over an interval whose addresses are all in the pool already, with the
  store executing every submission and every key fitting its buffer. The transaction
  queued for an address protects only the index (\<^verbatim>\<open>ZADD ... NX\<close> leaves the score of a
  member that exists) and sets the range field whatever it held (\<^verbatim>\<open>HSET\<close>). So
  \<^verbatim>\<open>driver_add_lease\<close> returns 0 with the count unchanged, no address being counted as
  added; the index and the device entries are as before; and the metadata of every
  address of the interval has its range field set to the operation's range, its other
  fields and all other metadata being as before.
\<close>

theorem driver_add_lease_retags_existing:
  assumes walk: "ipaddr_walk (HAVE_128BIT_INTEGERS build) (op_start opr) (op_end opr)
                   (op_prefix opr) = Some addrs"
    and exec: "\<forall>u\<in>set (upcoming cl). u = Executed"
    and fit: "\<forall>a\<in>set addrs. \<exists>k.
                IPPOOL_BUILD_IP_KEY_FROM_STR (IPPOOL_MAX_IP_KEY_SIZE build) (op_pool opr)
                  (IPPOOL_SPRINT_IP build a (op_prefix opr)) = Key_built k"
    and present: "\<forall>a\<in>set addrs.
                zsets (store cl) (pool_key (op_pool opr))
                  (IPPOOL_SPRINT_IP build a (op_prefix opr)) \<noteq> None"
  shows "\<exists>cl'. driver_add_lease build out cl opr = Some (0, out, cl') \<and>
           zsets (store cl') = zsets (store cl) \<and>
           strs (store cl') = strs (store cl) \<and>
           (\<forall>k. hashes (store cl') k =
                  (if k \<in> (\<lambda>a. address_key (op_pool opr)
                                   (IPPOOL_SPRINT_IP build a (op_prefix opr))) ` set addrs
                   then (hashes (store cl) k)(''range'' \<mapsto> op_range opr)
                   else hashes (store cl) k))"
proof -
  let ?sp = "\<lambda>a. IPPOOL_SPRINT_IP build a (op_prefix opr)"
  let ?nxt = "\<lambda>x. ipaddr_next (HAVE_128BIT_INTEGERS build) x (op_end opr) (op_prefix opr)"
  let ?enq = "\<lambda>x. driver_add_lease_enqueue build (op_pool opr) (op_range opr) x (op_prefix opr)"
  have w: "walks ?nxt (op_start opr) addrs" using walk by (rule walk_walks)
  have e: "\<forall>x\<in>set addrs. ?enq x = Some (4, add_cmds (op_pool opr) (op_range opr) (?sp x))"
    using fit by (auto intro: add_enqueue_fits)
  from add_loop [of ?nxt "op_start opr" addrs ?enq "op_pool opr" "op_range opr" ?sp cl out,
      OF w e present exec]
  obtain cl' where
    loop: "driver_loop ?enq (Some driver_add_lease_process) ?nxt (op_start opr) True out cl
           = Some (0, out, cl')"
    and st: "store cl' = retagged (op_pool opr) (op_range opr) (map ?sp addrs) (store cl)"
    by blast
  have "driver_add_lease build out cl opr = Some (0, out, cl')"
    using loop by (simp add: driver_add_lease_def driver_do_lease_def)
  moreover have "zsets (store cl') = zsets (store cl)" "strs (store cl') = strs (store cl)"
    using st by simp_all
  moreover have "hashes (store cl') k =
                  (if k \<in> (\<lambda>a. address_key (op_pool opr) (?sp a)) ` set addrs
                   then (hashes (store cl) k)(''range'' \<mapsto> op_range opr)
                   else hashes (store cl) k)" for k
    using st by (simp add: retagged_def image_image)
  ultimately show ?thesis by blast
qed

theorem driver_add_lease_retags_existing_witness:
  "hashes example_two_leases (address_key ''p'' ''10.0.0.1'') ''range'' = Some ''r1'' \<and>
   hashes example_two_leases (address_key ''p'' ''10.0.0.2'') ''range'' = Some ''r1'' \<and>
   map_option
     (\<lambda>(ret, modified, cl).
        (ret, modified, zsets (store cl) = zsets example_two_leases,
         hashes (store cl) (address_key ''p'' ''10.0.0.1'') ''range'',
         hashes (store cl) (address_key ''p'' ''10.0.0.2'') ''range'',
         hashes (store cl) (address_key ''p'' ''10.0.0.1'') ''device''))
     (driver_add_lease example_build 0 \<lparr>store = example_two_leases, upcoming = []\<rparr>
        ((example_op 0x0A000001 0x0A000002)\<lparr>op_range := ''r2''\<rparr>))
   = Some (0, 0, True, Some ''r2'', Some ''r2'', Some ''d1'')"
proof -
  let ?a1 = "example_host 0x0A000001" and ?a2 = "example_host 0x0A000002"
  let ?opr = "(example_op 0x0A000001 0x0A000002)\<lparr>op_range := ''r2''\<rparr>"
  let ?cl = "\<lparr>store = example_two_leases, upcoming = []\<rparr>"
  have n1: "ipaddr_next False ?a1 ?a2 32 = Some (?a2, True)"
    using example_next_step [of "0x0A000001" "0x0A000002" False] by simp
  have n2: "ipaddr_next False ?a2 ?a2 32 = Some (?a2, False)" by (rule example_next_at_end)
  have w2: "ipaddr_walk False ?a2 ?a2 32 = Some [?a2]"
    by (subst ipaddr_walk.simps) (simp add: n2)
  have w1: "ipaddr_walk False ?a1 ?a2 32 = Some [?a1, ?a2]"
    by (subst ipaddr_walk.simps) (simp add: n1 w2)
  have walk: "ipaddr_walk (HAVE_128BIT_INTEGERS example_build) (op_start ?opr) (op_end ?opr)
                (op_prefix ?opr) = Some [?a1, ?a2]"
    using w1 by (simp add: example_build_def example_op_def)
  have exec: "\<forall>u\<in>set (upcoming ?cl). u = Executed" by simp
  have fit: "\<forall>a\<in>set [?a1, ?a2]. \<exists>k.
                IPPOOL_BUILD_IP_KEY_FROM_STR (IPPOOL_MAX_IP_KEY_SIZE example_build) (op_pool ?opr)
                  (IPPOOL_SPRINT_IP example_build a (op_prefix ?opr)) = Key_built k"
    by (simp add: example_build_def example_op_def sprint1 sprint2 example_fits)
  have present: "\<forall>a\<in>set [?a1, ?a2].
                zsets (store ?cl) (pool_key (op_pool ?opr))
                  (IPPOOL_SPRINT_IP example_build a (op_prefix ?opr)) \<noteq> None"
    by (simp add: example_build_def example_op_def sprint1 sprint2 example_two_present)
  from driver_add_lease_retags_existing [OF walk exec fit present, of 0]
  obtain cl' where run: "driver_add_lease example_build 0 ?cl ?opr = Some (0, 0, cl')"
    and z: "zsets (store cl') = zsets (store ?cl)"
    and h: "\<And>k. hashes (store cl') k =
              (if k \<in> (\<lambda>a. address_key (op_pool ?opr)
                               (IPPOOL_SPRINT_IP example_build a (op_prefix ?opr))) ` set [?a1, ?a2]
               then (hashes (store ?cl) k)(''range'' \<mapsto> op_range ?opr)
               else hashes (store ?cl) k)"
    by blast
  have "hashes (store cl') (address_key ''p'' ''10.0.0.1'') ''range'' = Some ''r2''"
    "hashes (store cl') (address_key ''p'' ''10.0.0.2'') ''range'' = Some ''r2''"
    "hashes (store cl') (address_key ''p'' ''10.0.0.1'') ''device'' = Some ''d1''"
    by (simp_all add: h example_build_def example_op_def sprint1 sprint2 example_two_ranges)
  with run z show ?thesis by (simp add: example_two_ranges)
qed

end
